theory Spec2Isabelle
  imports Main "HOL-Library.Sublist" "HOL-Library.AList"
begin

section \<open>Python values\<close>

text \<open>
  The crawler works on the dictionaries decoded from the search API's JSON. A value is
  one of the JSON shapes; a dictionary keeps its insertion order, so it is an association
  list read with \<open>map_of\<close> and written with \<open>AList.update\<close> (an existing key keeps its
  place, a new key goes to the end, as in Python). Python's \<open>None\<close> is \<open>JNull\<close>.
  Strings are lists of characters and are taken to be ASCII text; non-integer numbers
  are not represented.
\<close>

datatype json =
    JNull
  | JBool bool
  | JInt int
  | JStr string
  | JList "json list"
  | JObj "(string \<times> json) list"

type_synonym pydict = "(string \<times> json) list"

datatype error =
    AttributeError
  | TypeError
  | IndexError
  | KeyError
  | ValueError
  | RequestException

text \<open>\<open>d.get(k, default)\<close>; \<open>d.get(k)\<close> is \<open>get_default d k JNull\<close>.\<close>

definition get_default :: "pydict \<Rightarrow> string \<Rightarrow> json \<Rightarrow> json" where
  "get_default d k dflt = (case map_of d k of None \<Rightarrow> dflt | Some v \<Rightarrow> v)"

text \<open>Truth value of an object in a condition.\<close>

fun truthy :: "json \<Rightarrow> bool" where
  "truthy JNull = False"
| "truthy (JBool b) = b"
| "truthy (JInt n) = (n \<noteq> 0)"
| "truthy (JStr s) = (s \<noteq> [])"
| "truthy (JList xs) = (xs \<noteq> [])"
| "truthy (JObj kvs) = (kvs \<noteq> [])"

text \<open>Iterating over a value: a list gives its elements, a string its characters, a
  dictionary its keys; anything else is not iterable.\<close>

fun py_iter :: "json \<Rightarrow> error + json list" where
  "py_iter (JList xs) = Inr xs"
| "py_iter (JStr s) = Inr (map (\<lambda>c. JStr [c]) s)"
| "py_iter (JObj kvs) = Inr (map (\<lambda>kv. JStr (fst kv)) kvs)"
| "py_iter JNull = Inl TypeError"
| "py_iter (JBool b) = Inl TypeError"
| "py_iter (JInt n) = Inl TypeError"

section \<open>String operations\<close>

definition lower_char :: "char \<Rightarrow> char" where
  "lower_char c =
     (case map_of (zip ''ABCDEFGHIJKLMNOPQRSTUVWXYZ'' ''abcdefghijklmnopqrstuvwxyz'') c of
        None \<Rightarrow> c
      | Some d \<Rightarrow> d)"

text \<open>\<open>s.lower()\<close> on ASCII text.\<close>

definition lower :: "string \<Rightarrow> string" where
  "lower s = map lower_char s"

text \<open>\<open>sub in s\<close> for two strings: \<open>sub\<close> occurs in \<open>s\<close> as a contiguous block.\<close>

fun str_in :: "string \<Rightarrow> string \<Rightarrow> bool" where
  "str_in sub [] = (sub = [])"
| "str_in sub (c # cs) = (prefix sub (c # cs) \<or> str_in sub cs)"

text \<open>\<open>sep.join(xs)\<close> for a list of strings.\<close>

fun join :: "string \<Rightarrow> string list \<Rightarrow> string" where
  "join sep [] = []"
| "join sep [x] = x"
| "join sep (x # y # ys) = x @ sep @ join sep (y # ys)"

text \<open>\<open>v.lower()\<close> on an arbitrary value: only a string has the method.\<close>

fun str_lower :: "json \<Rightarrow> error + string" where
  "str_lower (JStr s) = Inr (lower s)"
| "str_lower JNull = Inl AttributeError"
| "str_lower (JBool b) = Inl AttributeError"
| "str_lower (JInt n) = Inl AttributeError"
| "str_lower (JList xs) = Inl AttributeError"
| "str_lower (JObj kvs) = Inl AttributeError"

text \<open>\<open>[t.lower() for t in xs]\<close>: the first element without the method raises.\<close>

fun lower_each :: "json list \<Rightarrow> error + string list" where
  "lower_each [] = Inr []"
| "lower_each (t # ts) =
     (case str_lower t of
        Inl e \<Rightarrow> Inl e
      | Inr s \<Rightarrow> (case lower_each ts of Inl e \<Rightarrow> Inl e | Inr ss \<Rightarrow> Inr (s # ss)))"

section \<open>The keyword filter (crawler.py, filter_embedded_systems_repos)\<close>

text \<open>Lines 119 to 121: the lower-cased name, description and topics of one repository.
  The three reads happen in this order and the first failing one raises.\<close>

definition repo_fields :: "pydict \<Rightarrow> error + (string \<times> string \<times> string list)" where
  "repo_fields repo =
     (case str_lower (get_default repo ''name'' (JStr [])) of
        Inl e \<Rightarrow> Inl e
      | Inr name \<Rightarrow>
          (case (if truthy (get_default repo ''description'' JNull)
                 then str_lower (get_default repo ''description'' (JStr []))
                 else Inr []) of
             Inl e \<Rightarrow> Inl e
           | Inr description \<Rightarrow>
               (case py_iter (get_default repo ''topics'' (JList [])) of
                  Inl e \<Rightarrow> Inl e
                | Inr ts \<Rightarrow>
                    (case lower_each ts of
                       Inl e \<Rightarrow> Inl e
                     | Inr topics \<Rightarrow> Inr (name, description, topics)))))"

text \<open>Line 124: the text searched for exclusion keywords.\<close>

definition all_text :: "string \<Rightarrow> string \<Rightarrow> string list \<Rightarrow> string" where
  "all_text name description topics = name @ '' '' @ description @ '' '' @ join '' '' topics"

text \<open>Lines 127 to 130: the exclusion loop, leaving at the first hit.\<close>

fun should_exclude :: "string \<Rightarrow> string list \<Rightarrow> bool" where
  "should_exclude txt [] = False"
| "should_exclude txt (keyword # rest) =
     (if str_in (lower keyword) txt then True else should_exclude txt rest)"

text \<open>Lines 141 to 143: the test applied to one required keyword.\<close>

definition keyword_hit :: "string \<Rightarrow> string \<Rightarrow> string list \<Rightarrow> string \<Rightarrow> bool" where
  "keyword_hit name description topics keyword =
     (let keyword_lower = lower keyword
      in str_in keyword_lower name \<or> str_in keyword_lower description \<or> keyword_lower \<in> set topics)"

text \<open>Lines 136 to 145: the scoring loop with its two accumulators.\<close>

fun count_matches ::
  "string \<Rightarrow> string \<Rightarrow> string list \<Rightarrow> string list \<Rightarrow> int \<Rightarrow> string list \<Rightarrow> int \<times> string list" where
  "count_matches name description topics [] match_count matches = (match_count, matches)"
| "count_matches name description topics (keyword # rest) match_count matches =
     (if keyword_hit name description topics keyword
      then count_matches name description topics rest (match_count + 1) (matches @ [keyword])
      else count_matches name description topics rest match_count matches)"

text \<open>Lines 149 to 151: the copy of the repository carrying its score.\<close>

definition with_score :: "pydict \<Rightarrow> int \<Rightarrow> string list \<Rightarrow> pydict" where
  "with_score repo match_count matches =
     AList.update ''matching_keywords'' (JList (map JStr matches))
       (AList.update ''keyword_match_count'' (JInt match_count) repo)"

text \<open>Lines 115 to 152: the loop over the repositories.\<close>

fun filter_loop ::
  "pydict list \<Rightarrow> string list \<Rightarrow> string list \<Rightarrow> pydict list \<Rightarrow> error + pydict list" where
  "filter_loop [] required_keywords exclude_keywords filtered_repos = Inr filtered_repos"
| "filter_loop (repo # repos) required_keywords exclude_keywords filtered_repos =
     (case repo_fields repo of
        Inl e \<Rightarrow> Inl e
      | Inr (name, description, topics) \<Rightarrow>
          if should_exclude (all_text name description topics) exclude_keywords
          then filter_loop repos required_keywords exclude_keywords filtered_repos
          else (case count_matches name description topics required_keywords 0 [] of
                  (match_count, matches) \<Rightarrow>
                    if match_count > 0
                    then filter_loop repos required_keywords exclude_keywords
                           (filtered_repos @ [with_score repo match_count matches])
                    else filter_loop repos required_keywords exclude_keywords filtered_repos))"

text \<open>The sort key of line 155. Every element of the list being sorted was given an
  integer under this key at line 150.\<close>

definition keyword_match_count :: "pydict \<Rightarrow> int" where
  "keyword_match_count x = (case map_of x ''keyword_match_count'' of Some (JInt n) \<Rightarrow> n | _ \<Rightarrow> 0)"

text \<open>Line 155 sorts stably with \<open>reverse=True\<close>: descending keys, equal keys in their
  original order. That is the stable ascending sort on the negated key.\<close>

definition filter_embedded_systems_repos ::
  "pydict list \<Rightarrow> string list \<Rightarrow> string list \<Rightarrow> error + pydict list" where
  "filter_embedded_systems_repos repos required_keywords exclude_keywords =
     (case filter_loop repos required_keywords exclude_keywords [] of
        Inl e \<Rightarrow> Inl e
      | Inr filtered_repos \<Rightarrow> Inr (sort_key (\<lambda>x. - keyword_match_count x) filtered_repos))"


section \<open>Notions used to state the properties of the filter\<close>

text \<open>The required keywords that hit a repository, in the order of the keyword list.\<close>

definition matches_of :: "string list \<Rightarrow> pydict \<Rightarrow> string list" where
  "matches_of K repo =
     (case repo_fields repo of
        Inl e \<Rightarrow> []
      | Inr (name, description, topics) \<Rightarrow> filter (keyword_hit name description topics) K)"

text \<open>Some exclusion keyword occurs in the searched text of the repository.\<close>

definition excluded :: "string list \<Rightarrow> pydict \<Rightarrow> bool" where
  "excluded E repo =
     (case repo_fields repo of
        Inl e \<Rightarrow> False
      | Inr (name, description, topics) \<Rightarrow>
          (\<exists>k\<in>set E. str_in (lower k) (all_text name description topics)))"

text \<open>The repository with the score the filter attaches to it.\<close>

definition scored :: "string list \<Rightarrow> pydict \<Rightarrow> pydict" where
  "scored K repo = with_score repo (int (length (matches_of K repo))) (matches_of K repo)"

text \<open>The three reads of lines 119 to 121 succeed.\<close>

definition readable :: "pydict \<Rightarrow> bool" where
  "readable repo = (case repo_fields repo of Inl e \<Rightarrow> False | Inr f \<Rightarrow> True)"

text \<open>Case-insensitive substring and case-insensitive equality, on the fields as the
  repository carries them. \<open>sublist\<close> is the contiguous one of the list library.\<close>

definition ci_substring :: "string \<Rightarrow> string \<Rightarrow> bool" where
  "ci_substring k t = sublist (lower k) (lower t)"

definition ci_equal :: "string \<Rightarrow> string \<Rightarrow> bool" where
  "ci_equal a b = (lower a = lower b)"

text \<open>The fields of a repository under the reading that a missing field is empty.\<close>

definition name_text :: "pydict \<Rightarrow> string" where
  "name_text repo = (case map_of repo ''name'' of Some (JStr s) \<Rightarrow> s | _ \<Rightarrow> [])"

definition description_text :: "pydict \<Rightarrow> string" where
  "description_text repo = (case map_of repo ''description'' of Some (JStr s) \<Rightarrow> s | _ \<Rightarrow> [])"

fun str_text :: "json \<Rightarrow> string" where
  "str_text (JStr s) = s"
| "str_text v = []"

fun is_str :: "json \<Rightarrow> bool" where
  "is_str (JStr s) = True"
| "is_str v = False"

definition topic_texts :: "pydict \<Rightarrow> string list" where
  "topic_texts repo = (case map_of repo ''topics'' of Some (JList ts) \<Rightarrow> map str_text ts | _ \<Rightarrow> [])"

text \<open>Each of the three fields is missing or has the type the search API gives it; the
  description may also be null.\<close>

definition fields_missing_or_typed :: "pydict \<Rightarrow> bool" where
  "fields_missing_or_typed repo =
     ((case map_of repo ''name'' of None \<Rightarrow> True | Some (JStr s) \<Rightarrow> True | Some v \<Rightarrow> False) \<and>
      (case map_of repo ''description'' of
         None \<Rightarrow> True | Some JNull \<Rightarrow> True | Some (JStr s) \<Rightarrow> True | Some v \<Rightarrow> False) \<and>
      (case map_of repo ''topics'' of
         None \<Rightarrow> True | Some (JList ts) \<Rightarrow> list_all is_str ts | Some v \<Rightarrow> False))"

subsection \<open>Sample repositories\<close>

definition stm32_hal :: pydict where
  "stm32_hal =
     [(''full_name'', JStr ''org/stm32-hal''), (''name'', JStr ''stm32-hal''),
      (''description'', JStr ''HAL for STM32''),
      (''topics'', JList [JStr ''stm32'', JStr ''hal'']), (''language'', JStr ''C'')]"

definition rtos_tutorial :: pydict where
  "rtos_tutorial =
     [(''full_name'', JStr ''org/rtos-intro''), (''name'', JStr ''rtos-intro''),
      (''description'', JStr ''STM32 firmware Tutorial''),
      (''topics'', JList [JStr ''rtos'']), (''language'', JStr ''C'')]"

definition board_demo :: pydict where
  "board_demo =
     [(''full_name'', JStr ''org/demo''), (''name'', JStr ''demo''),
      (''description'', JStr ''Board support''),
      (''topics'', JList [JStr ''stm32f4''])]"

definition stm32_hal_scored :: pydict where
  "stm32_hal_scored =
     stm32_hal @ [(''keyword_match_count'', JInt 2),
                  (''matching_keywords'', JList [JStr ''STM32'', JStr ''HAL''])]"

definition stm32_keywords :: "string list" where
  "stm32_keywords = [''STM32'', ''HAL'']"

definition rtos_keywords :: "string list" where
  "rtos_keywords = [''STM32'', ''firmware'', ''RTOS'']"

definition stm32_hal_scored1 :: pydict where
  "stm32_hal_scored1 =
     stm32_hal @ [(''keyword_match_count'', JInt 1), (''matching_keywords'', JList [JStr ''STM32''])]"

definition board_keywords :: "string list" where
  "board_keywords = [''STM32'', ''board'', ''STM32F4'']"

definition board_demo_scored :: pydict where
  "board_demo_scored =
     board_demo @ [(''keyword_match_count'', JInt 2),
                   (''matching_keywords'', JList [JStr ''board'', JStr ''STM32F4''])]"

definition bare_repo :: pydict where
  "bare_repo = [(''full_name'', JStr ''org/bare'')]"

section \<open>Removing duplicates (utils.py, run_crawler, lines 167 to 174)\<close>

text \<open>A dictionary key must be hashable: lists and dictionaries are not. \<open>True\<close> and
  \<open>False\<close> are the same keys as \<open>1\<close> and \<open>0\<close>.\<close>

fun dict_key :: "json \<Rightarrow> error + json" where
  "dict_key (JList xs) = Inl TypeError"
| "dict_key (JObj kvs) = Inl TypeError"
| "dict_key (JBool b) = Inr (JInt (if b then 1 else 0))"
| "dict_key JNull = Inr JNull"
| "dict_key (JInt n) = Inr (JInt n)"
| "dict_key (JStr s) = Inr (JStr s)"

text \<open>Line 170 and the key it gives in \<open>unique_repos\<close>.\<close>

definition identity_key :: "pydict \<Rightarrow> error + json" where
  "identity_key repo = dict_key (get_default repo ''full_name'' JNull)"

text \<open>Lines 169 to 172. \<open>unique_repos\<close> is the dictionary in insertion order.\<close>

fun dedup_loop :: "(json \<times> pydict) list \<Rightarrow> pydict list \<Rightarrow> error + (json \<times> pydict) list" where
  "dedup_loop unique_repos [] = Inr unique_repos"
| "dedup_loop unique_repos (repo # rest) =
     (case identity_key repo of
        Inl e \<Rightarrow> Inl e
      | Inr full_name \<Rightarrow>
          if map_of unique_repos full_name = None
          then dedup_loop (unique_repos @ [(full_name, repo)]) rest
          else dedup_loop unique_repos rest)"

text \<open>Lines 168 to 174: \<open>list(unique_repos.values())\<close> after the loop.\<close>

definition unique_repos_list :: "pydict list \<Rightarrow> error + pydict list" where
  "unique_repos_list all_repos =
     (case dedup_loop [] all_repos of
        Inl e \<Rightarrow> Inl e
      | Inr unique_repos \<Rightarrow> Inr (map snd unique_repos))"

text \<open>The repositories not yet seen, each key once, in arrival order: the shape of the
  loop's result, used to reason about it.\<close>

fun fresh :: "(error + json) set \<Rightarrow> pydict list \<Rightarrow> pydict list" where
  "fresh seen [] = []"
| "fresh seen (x # xs) =
     (if identity_key x \<in> seen then fresh seen xs else x # fresh (insert (identity_key x) seen) xs)"

definition hashable :: "pydict \<Rightarrow> bool" where
  "hashable repo = (case identity_key repo of Inl e \<Rightarrow> False | Inr k \<Rightarrow> True)"

subsection \<open>Sample pages\<close>

definition repo_a :: pydict where
  "repo_a = [(''full_name'', JStr ''org/repo''), (''description'', JStr ''first'')]"

definition repo_a_again :: pydict where
  "repo_a_again = [(''full_name'', JStr ''org/repo''), (''description'', JStr ''second'')]"

definition repo_b :: pydict where
  "repo_b = [(''full_name'', JStr ''org/other''), (''description'', JStr ''other'')]"

section \<open>Requests and the rate limit (crawler.py, _make_request)\<close>

text \<open>Whitespace as \<open>str.strip\<close> sees it in ASCII text: tab, line feed, vertical tab,
  form feed, carriage return, the four separators 28 to 31, and the space.\<close>

definition is_space :: "char \<Rightarrow> bool" where
  "is_space c =
     (c \<in> set [CHR 0x09, CHR 0x0A, CHR 0x0B, CHR 0x0C, CHR 0x0D,
                CHR 0x1C, CHR 0x1D, CHR 0x1E, CHR 0x1F, CHR '' ''])"

definition strip :: "string \<Rightarrow> string" where
  "strip s = rev (dropWhile is_space (rev (dropWhile is_space s)))"

text \<open>Whitespace as \<open>int\<close> skips it around the digits of an ASCII string: tab, line
  feed, vertical tab, form feed, carriage return and the space. The separators 28 to 31,
  which \<open>str.strip\<close> removes, are not skipped.\<close>

definition is_int_space :: "char \<Rightarrow> bool" where
  "is_int_space c = (c \<in> set [CHR 0x09, CHR 0x0A, CHR 0x0B, CHR 0x0C, CHR 0x0D, CHR '' ''])"

definition int_strip :: "string \<Rightarrow> string" where
  "int_strip s = rev (dropWhile is_int_space (rev (dropWhile is_int_space s)))"

definition digit_of :: "char \<Rightarrow> int option" where
  "digit_of = map_of (zip ''0123456789'' [0, 1, 2, 3, 4, 5, 6, 7, 8, 9])"

text \<open>The digits after the first one: single underscores may separate digits.\<close>

fun digits_value :: "int \<Rightarrow> string \<Rightarrow> int option" where
  "digits_value acc [] = Some acc"
| "digits_value acc [c] =
     (case digit_of c of None \<Rightarrow> None | Some v \<Rightarrow> Some (10 * acc + v))"
| "digits_value acc (c # d # ds) =
     (if c = CHR ''_''
      then (case digit_of d of None \<Rightarrow> None | Some v \<Rightarrow> digits_value (10 * acc + v) ds)
      else (case digit_of c of None \<Rightarrow> None | Some v \<Rightarrow> digits_value (10 * acc + v) (d # ds)))"

text \<open>The interpreter refuses a decimal string of more than 4300 digits.\<close>

definition max_str_digits :: nat where
  "max_str_digits = 4300"

definition unsigned_value :: "string \<Rightarrow> int option" where
  "unsigned_value s =
     (case s of
        [] \<Rightarrow> None
      | c # cs \<Rightarrow>
          (case digit_of c of
             None \<Rightarrow> None
           | Some v \<Rightarrow>
               if max_str_digits < length (filter (\<lambda>d. d \<noteq> CHR ''_'') (c # cs)) then None
               else digits_value v cs))"

text \<open>\<open>int(s)\<close> for a string: surrounding whitespace, an optional sign, decimal digits;
  anything else is a \<open>ValueError\<close>.\<close>

definition py_int :: "string \<Rightarrow> error + int" where
  "py_int s =
     (case int_strip s of
        [] \<Rightarrow> Inl ValueError
      | c # cs \<Rightarrow>
          if c = CHR ''-''
          then (case unsigned_value cs of None \<Rightarrow> Inl ValueError | Some n \<Rightarrow> Inr (- n))
          else if c = CHR ''+''
          then (case unsigned_value cs of None \<Rightarrow> Inl ValueError | Some n \<Rightarrow> Inr n)
          else (case unsigned_value (c # cs) of None \<Rightarrow> Inl ValueError | Some n \<Rightarrow> Inr n))"

text \<open>The two counters of the crawler object (lines 19 and 20). Its base address and its
  request headers never change and are left out.\<close>

record crawler =
  rate_limit_remaining :: int
  rate_limit_reset :: int

text \<open>What \<open>_make_request\<close> reads of a response: the status, the two rate-limit headers
  (absent, or their text) and the decoded body (\<open>None\<close> when \<open>response.json()\<close> raises).\<close>

record response =
  status_code :: int
  x_ratelimit_remaining :: "string option"
  x_ratelimit_reset :: "string option"
  json_body :: "json option"

text \<open>\<open>requests.get\<close> raises or returns a response.\<close>

datatype http_result = Request_Failed | Response response

text \<open>Lines 176 to 197. An exception anywhere in the \<open>try\<close> block ends the call with
  \<open>None\<close>, keeping the assignments already made. A status other than 200 returns \<open>None\<close>
  in both remaining branches. The wait of lines 170 to 174 only delays the request.\<close>

definition make_request :: "crawler \<Rightarrow> http_result \<Rightarrow> crawler \<times> json" where
  "make_request self res =
     (case res of
        Request_Failed \<Rightarrow> (self, JNull)
      | Response r \<Rightarrow>
          (case (case x_ratelimit_remaining r of None \<Rightarrow> Inr 0 | Some s \<Rightarrow> py_int s) of
             Inl e \<Rightarrow> (self, JNull)
           | Inr remaining \<Rightarrow>
               (let self1 = self\<lparr>rate_limit_remaining := remaining\<rparr>
                in case (case x_ratelimit_reset r of
                           None \<Rightarrow> Inr self1
                         | Some reset_time \<Rightarrow>
                             if reset_time \<noteq> []
                             then (case py_int reset_time of
                                     Inl e \<Rightarrow> Inl e
                                   | Inr n \<Rightarrow> Inr (self1\<lparr>rate_limit_reset := n\<rparr>))
                             else Inr self1) of
                     Inl e \<Rightarrow> (self1, JNull)
                   | Inr self2 \<Rightarrow>
                       if status_code r = 200
                       then (case json_body r of None \<Rightarrow> (self2, JNull) | Some v \<Rightarrow> (self2, v))
                       else (self2, JNull))))"

section \<open>Paginated search (crawler.py, search_repos)\<close>

text \<open>\<open>x in v\<close> for a string \<open>x\<close>: a key of a dictionary, an element of a list, a
  substring of a string; other values are not containers.\<close>

fun py_contains :: "json \<Rightarrow> string \<Rightarrow> error + bool" where
  "py_contains (JObj kvs) x = Inr (map_of kvs x \<noteq> None)"
| "py_contains (JList xs) x = Inr (JStr x \<in> set xs)"
| "py_contains (JStr s) x = Inr (str_in x s)"
| "py_contains JNull x = Inl TypeError"
| "py_contains (JBool b) x = Inl TypeError"
| "py_contains (JInt n) x = Inl TypeError"

text \<open>\<open>v[k]\<close> for a string \<open>k\<close>: only a dictionary can be indexed by a string.\<close>

fun py_getitem :: "json \<Rightarrow> string \<Rightarrow> error + json" where
  "py_getitem (JObj kvs) k = (case map_of kvs k of None \<Rightarrow> Inl KeyError | Some v \<Rightarrow> Inr v)"
| "py_getitem (JList xs) k = Inl TypeError"
| "py_getitem (JStr s) k = Inl TypeError"
| "py_getitem JNull k = Inl TypeError"
| "py_getitem (JBool b) k = Inl TypeError"
| "py_getitem (JInt n) k = Inl TypeError"

fun py_len :: "json \<Rightarrow> error + nat" where
  "py_len (JList xs) = Inr (length xs)"
| "py_len (JStr s) = Inr (length s)"
| "py_len (JObj kvs) = Inr (length kvs)"
| "py_len JNull = Inl TypeError"
| "py_len (JBool b) = Inl TypeError"
| "py_len (JInt n) = Inl TypeError"

text \<open>Lines 56 to 67 for one response: the extended list and whether the loop goes on.\<close>

definition process_page :: "json \<Rightarrow> json list \<Rightarrow> error + (json list \<times> bool)" where
  "process_page response all_repos =
     (if \<not> truthy response then Inr (all_repos, False)
      else case py_contains response ''items'' of
             Inl e \<Rightarrow> Inl e
           | Inr has_items \<Rightarrow>
               if \<not> has_items then Inr (all_repos, False)
               else (case py_getitem response ''items'' of
                       Inl e \<Rightarrow> Inl e
                     | Inr items \<Rightarrow>
                         (case py_len items of
                            Inl e \<Rightarrow> Inl e
                          | Inr n \<Rightarrow>
                              if n = 0 then Inr (all_repos, False)
                              else (case py_iter items of
                                      Inl e \<Rightarrow> Inl e
                                    | Inr elems \<Rightarrow> Inr (all_repos @ elems, \<not> n < 100)))))"

text \<open>Lines 52 to 69. \<open>env\<close> gives, for a page number, what the request for that page
  meets. The query, language, sort order and star bound only shape the request.\<close>

function search_loop ::
  "crawler \<Rightarrow> (int \<Rightarrow> http_result) \<Rightarrow> int \<Rightarrow> int \<Rightarrow> json list \<Rightarrow> crawler \<times> (error + json list)" where
  "search_loop self env max_pages page all_repos =
     (if page \<le> max_pages
      then (case make_request self (env page) of
              (self', response) \<Rightarrow>
                (case process_page response all_repos of
                   Inl e \<Rightarrow> (self', Inl e)
                 | Inr (all_repos', continue) \<Rightarrow>
                     if continue then search_loop self' env max_pages (page + 1) all_repos'
                     else (self', Inr all_repos')))
      else (self, Inr all_repos))"
  by pat_completeness auto
termination
  by (relation "measure (\<lambda>(self, env, max_pages, page, all_repos). nat (max_pages + 1 - page))") auto

definition search_repos :: "crawler \<Rightarrow> (int \<Rightarrow> http_result) \<Rightarrow> int \<Rightarrow> crawler \<times> (error + json list)" where
  "search_repos self env max_pages = search_loop self env max_pages 1 []"

subsection \<open>Notions used to state the properties of the search\<close>

text \<open>The rate-limit headers of a response can be read: each is absent or holds an
  integer, and the reset header may be empty.\<close>

definition readable_headers :: "response \<Rightarrow> bool" where
  "readable_headers r =
     ((case x_ratelimit_remaining r of
         None \<Rightarrow> True
       | Some s \<Rightarrow> (case py_int s of Inl e \<Rightarrow> False | Inr n \<Rightarrow> True)) \<and>
      (case x_ratelimit_reset r of
         None \<Rightarrow> True
       | Some s \<Rightarrow> s = [] \<or> (case py_int s of Inl e \<Rightarrow> False | Inr n \<Rightarrow> True)))"

text \<open>The items a page delivers. A failed request delivers none; neither does a response
  with a status other than 200, with headers that cannot be read, or with a body that has
  no list of results.\<close>

definition page_items :: "http_result \<Rightarrow> json list" where
  "page_items res =
     (case res of
        Request_Failed \<Rightarrow> []
      | Response r \<Rightarrow>
          if status_code r = 200 \<and> readable_headers r
          then (case json_body r of
                  Some (JObj kvs) \<Rightarrow> (case map_of kvs ''items'' of Some (JList xs) \<Rightarrow> xs | _ \<Rightarrow> [])
                | _ \<Rightarrow> [])
          else [])"

text \<open>A page as the search API sends it: when the status is 200 and the headers can be
  read, the body is undecodable, null, or an object whose \<open>items\<close>, when present, is a
  list. Failed requests and error responses are not restricted.\<close>

definition well_formed_page :: "http_result \<Rightarrow> bool" where
  "well_formed_page res =
     (case res of
        Request_Failed \<Rightarrow> True
      | Response r \<Rightarrow>
          status_code r = 200 \<and> readable_headers r \<longrightarrow>
            (case json_body r of
               None \<Rightarrow> True
             | Some JNull \<Rightarrow> True
             | Some (JObj kvs) \<Rightarrow>
                 (case map_of kvs ''items'' of
                    None \<Rightarrow> True
                  | Some (JList xs) \<Rightarrow> True
                  | Some v \<Rightarrow> False)
             | Some v \<Rightarrow> False))"

text \<open>The pages up to and including the first one that is not full, concatenated.\<close>

definition gathered :: "json list list \<Rightarrow> json list" where
  "gathered pages =
     concat (take (Suc (length (takeWhile (\<lambda>items. 100 \<le> length items) pages))) pages)"

subsection \<open>Sample responses\<close>

definition busy_crawler :: crawler where
  "busy_crawler = \<lparr>rate_limit_remaining = 4999, rate_limit_reset = 1700000000\<rparr>"

definition no_header_response :: response where
  "no_header_response =
     \<lparr>status_code = 200, x_ratelimit_remaining = None, x_ratelimit_reset = None,
      json_body = Some (JObj [(''total_count'', JInt 0), (''items'', JList [])])\<rparr>"

definition full_page :: response where
  "full_page =
     \<lparr>status_code = 200, x_ratelimit_remaining = Some ''29'', x_ratelimit_reset = Some ''1700000060'',
      json_body = Some (JObj [(''total_count'', JInt 250),
                              (''items'', JList (replicate 100 (JObj [(''full_name'', JStr ''org/repo'')])))])\<rparr>"

definition rate_limited :: response where
  "rate_limited =
     \<lparr>status_code = 403, x_ratelimit_remaining = Some ''0'', x_ratelimit_reset = Some ''1700000060'',
      json_body = Some (JObj [(''message'', JStr ''API rate limit exceeded'')])\<rparr>"

definition flaky_env :: "int \<Rightarrow> http_result" where
  "flaky_env page =
     (if page = 1 then Response full_page
      else if page = 2 then Response rate_limited
      else Request_Failed)"

definition odd_header_response :: response where
  "odd_header_response =
     \<lparr>status_code = 200, x_ratelimit_remaining = Some [CHR 0x1C, CHR ''5''],
      x_ratelimit_reset = Some ''1700000060'',
      json_body = Some (JObj [(''total_count'', JInt 0), (''items'', JList [])])\<rparr>"

section \<open>Classification (analyzer.py, RepoAnalyzer)\<close>

text \<open>The flags set by the constructor (lines 22 to 48). The model handles are left out:
  what the two services answer is given to each call from outside.\<close>

record analyzer =
  use_ollama :: bool
  ollama_available :: bool
  gemini_available :: bool

text \<open>\<open>v >= k\<close> for an integer \<open>k\<close>: integers compare, \<open>True\<close> and \<open>False\<close> count as
  1 and 0, any other value raises.\<close>

fun py_ge :: "json \<Rightarrow> int \<Rightarrow> error + bool" where
  "py_ge (JInt n) k = Inr (k \<le> n)"
| "py_ge (JBool b) k = Inr (k \<le> (if b then 1 else 0))"
| "py_ge JNull k = Inl TypeError"
| "py_ge (JStr s) k = Inl TypeError"
| "py_ge (JList xs) k = Inl TypeError"
| "py_ge (JObj kvs) k = Inl TypeError"

text \<open>Decimal digits of a non-negative integer, and \<open>str\<close> of an integer.\<close>

function digits :: "int \<Rightarrow> string" where
  "digits n =
     (if n < 10 then [''0123456789'' ! nat n]
      else digits (n div 10) @ [''0123456789'' ! nat (n mod 10)])"
  by pat_completeness auto
termination
  by (relation "measure nat") auto

definition str_int :: "int \<Rightarrow> string" where
  "str_int n = (if n < 0 then CHR ''-'' # digits (- n) else digits n)"

text \<open>A value inside a formatted string. Only integers and truth values reach the
  formatting: every other value has raised in the comparison before it.\<close>

fun format_value :: "json \<Rightarrow> string" where
  "format_value (JInt n) = str_int n"
| "format_value (JBool b) = (if b then ''True'' else ''False'')"
| "format_value v = []"

text \<open>\<open>s.split(sep, 1)[1]\<close> for a non-empty \<open>sep\<close>: the text after the first occurrence,
  and no second element when there is none.\<close>

fun split_after :: "string \<Rightarrow> string \<Rightarrow> string option" where
  "split_after sep [] = None"
| "split_after sep (c # cs) =
     (if prefix sep (c # cs) then Some (drop (length sep) (c # cs)) else split_after sep cs)"

text \<open>Whether \<open>', '.join(v)\<close> succeeds: \<open>v\<close> must be iterable and yield strings.\<close>

fun joinable :: "json \<Rightarrow> bool" where
  "joinable (JList xs) = list_all is_str xs"
| "joinable (JStr s) = True"
| "joinable (JObj kvs) = True"
| "joinable v = False"

text \<open>Building the prompt (lines 87 to 111 and 178 to 209) raises only in its two joins.
  The text of the prompt is not needed: the answers are given from outside.\<close>

definition prompt_error :: "pydict \<Rightarrow> error option" where
  "prompt_error repo =
     (if \<not> joinable (get_default repo ''topics'' (JList [])) then Some TypeError
      else if \<not> joinable (get_default repo ''matching_keywords'' (JList [])) then Some TypeError
      else None)"

definition max_retries :: nat where
  "max_retries = 3"

definition privileged_languages :: "string list" where
  "privileged_languages = [''c'', ''c++'', ''assembly'']"

subsection \<open>The local model (analyze_repo_with_ollama)\<close>

text \<open>What one \<open>requests.post\<close> meets: an exception, or a response with its status and
  its decoded body (\<open>None\<close> when \<open>response.json()\<close> raises).\<close>

datatype reply = Post_Failed | Reply int "json option"

text \<open>Lines 228 and 229.\<close>

definition answer_text_of :: "json option \<Rightarrow> error + string" where
  "answer_text_of body =
     (case body of
        None \<Rightarrow> Inl ValueError
      | Some (JObj kvs) \<Rightarrow>
          (case get_default kvs ''response'' (JStr []) of
             JStr s \<Rightarrow> Inr (strip s)
           | _ \<Rightarrow> Inl AttributeError)
      | Some _ \<Rightarrow> Inl AttributeError)"

text \<open>Lines 234 and 239: the explanation after \<open>Yes -\<close> or \<open>Yes\<close> (after \<open>No -\<close> or
  \<open>No\<close>), in the capitalisation written here.\<close>

definition explanation_after :: "string \<Rightarrow> string \<Rightarrow> error + string" where
  "explanation_after word answer_text =
     (if str_in (word @ '' -'') answer_text
      then (case split_after (word @ '' -'') answer_text of
              None \<Rightarrow> Inl IndexError
            | Some rest \<Rightarrow> Inr (strip rest))
      else (case split_after word answer_text of
              None \<Rightarrow> Inl IndexError
            | Some rest \<Rightarrow> Inr (strip rest)))"

text \<open>Lines 242 to 251, and again lines 258 to 266 with the whole answer as the text
  shown: the second look at a negative answer.\<close>

definition override_no :: "pydict \<Rightarrow> string \<Rightarrow> error + string" where
  "override_no repo shown =
     (case str_lower (get_default repo ''language'' (JStr [])) of
        Inl e \<Rightarrow> Inl e
      | Inr language \<Rightarrow>
          (let keyword_count = get_default repo ''keyword_match_count'' (JInt 0)
           in case (if language \<in> set privileged_languages then py_ge keyword_count 1
                    else Inr False) of
                Inl e \<Rightarrow> Inl e
              | Inr True \<Rightarrow>
                  Inr (''Yes - Contains '' @ language @ '' code and matches embedded keywords'')
              | Inr False \<Rightarrow>
                  (case py_ge keyword_count 2 of
                     Inl e \<Rightarrow> Inl e
                   | Inr True \<Rightarrow>
                       Inr (''Yes - Matches multiple embedded keywords ('' @
                            format_value keyword_count @ '')'')
                   | Inr False \<Rightarrow> Inr (''No - '' @ take 95 shown))))"

text \<open>Lines 232 to 269: reading the answer.\<close>

definition ollama_parse :: "pydict \<Rightarrow> string \<Rightarrow> error + string" where
  "ollama_parse repo answer_text =
     (if prefix ''yes'' (lower answer_text)
      then (case explanation_after ''Yes'' answer_text of
              Inl e \<Rightarrow> Inl e
            | Inr explanation \<Rightarrow> Inr (''Yes - '' @ take 95 explanation))
      else if prefix ''no'' (lower answer_text)
      then (case explanation_after ''No'' answer_text of
              Inl e \<Rightarrow> Inl e
            | Inr explanation \<Rightarrow> override_no repo explanation)
      else if str_in ''suitable'' (lower answer_text) \<and>
              \<not> str_in ''not'' (take 30 (lower answer_text))
      then Inr (''Yes - '' @ take 95 answer_text)
      else if str_in ''not suitable'' (lower answer_text) \<or>
              str_in ''unsuitable'' (lower answer_text)
      then override_no repo answer_text
      else Inr ''Yes - Repository appears relevant to embedded systems'')"

text \<open>Lines 216 to 275 for one attempt: the value returned, \<open>None\<close> when the status is
  not 200 and the loop goes on, or the exception raised inside the inner \<open>try\<close>.\<close>

definition ollama_attempt :: "pydict \<Rightarrow> reply \<Rightarrow> error + string option" where
  "ollama_attempt repo r =
     (case r of
        Post_Failed \<Rightarrow> Inl RequestException
      | Reply status body \<Rightarrow>
          if status = 200
          then (case answer_text_of body of
                  Inl e \<Rightarrow> Inl e
                | Inr answer_text \<Rightarrow>
                    (case ollama_parse repo answer_text of
                       Inl e \<Rightarrow> Inl e
                     | Inr v \<Rightarrow> Inr (Some v)))
          else Inr None)"

text \<open>Lines 213 to 282: the loop over \<open>range(max_retries)\<close>. An exception before the last
  attempt is followed by the next attempt, on the last attempt it is raised again. When
  the attempts are used up without a return the loop ends and so does the function, whose
  value is then \<open>None\<close>.\<close>

fun ollama_retry :: "pydict \<Rightarrow> (nat \<Rightarrow> reply) \<Rightarrow> nat list \<Rightarrow> error + string option" where
  "ollama_retry repo env [] = Inr None"
| "ollama_retry repo env (attempt # rest) =
     (case ollama_attempt repo (env attempt) of
        Inr (Some v) \<Rightarrow> Inr (Some v)
      | Inr None \<Rightarrow> ollama_retry repo env rest
      | Inl e \<Rightarrow> if attempt < max_retries - 1 then ollama_retry repo env rest else Inl e)"

text \<open>Lines 288 to 297: the handler of the outer \<open>try\<close>.\<close>

definition ollama_fallback :: "pydict \<Rightarrow> error + string" where
  "ollama_fallback repo =
     (let matches = get_default repo ''keyword_match_count'' (JInt 0)
      in case str_lower (get_default repo ''language'' (JStr [])) of
           Inl e \<Rightarrow> Inl e
         | Inr language \<Rightarrow>
             if language \<in> set privileged_languages
             then Inr (''Yes (fallback - contains '' @ language @ '' code for embedded systems)'')
             else (case py_ge matches 1 of
                     Inl e \<Rightarrow> Inl e
                   | Inr True \<Rightarrow>
                       Inr (''Yes (fallback - matches '' @ format_value matches @
                            '' embedded keywords)'')
                   | Inr False \<Rightarrow> Inr ''Yes (fallback - pre-filtered repo)''))"

text \<open>Lines 172 to 297. \<open>env\<close> gives what the request of each attempt meets. The result
  is the returned string, \<open>None\<close> when the function ends without a \<open>return\<close>, or the
  exception that leaves the function.\<close>

definition analyze_repo_with_ollama ::
  "analyzer \<Rightarrow> pydict \<Rightarrow> (nat \<Rightarrow> reply) \<Rightarrow> error + string option" where
  "analyze_repo_with_ollama self repo env =
     (if \<not> ollama_available self then Inr (Some ''N/A (Ollama service not available)'')
      else case prompt_error repo of
             Some e \<Rightarrow> map_sum id Some (ollama_fallback repo)
           | None \<Rightarrow>
               (case ollama_retry repo env [0..<max_retries] of
                  Inl e \<Rightarrow> map_sum id Some (ollama_fallback repo)
                | Inr v \<Rightarrow> Inr v))"

subsection \<open>The hosted model (analyze_repo_with_gemini)\<close>

text \<open>\<open>generate_content\<close> or reading the text of its result raises, or there is a text.\<close>

datatype generation = Generate_Failed | Generated string

text \<open>Lines 122 to 137, on the stripped answer.\<close>

definition gemini_parse :: "pydict \<Rightarrow> string \<Rightarrow> error + string" where
  "gemini_parse repo answer_text =
     (if str_in ''yes'' (take 10 (lower answer_text))
      then (case split_after ''Yes'' answer_text of
              None \<Rightarrow> Inl IndexError
            | Some rest \<Rightarrow> Inr (''Yes - '' @ take 100 (strip rest)))
      else if str_in ''no'' (take 10 (lower answer_text))
      then (case split_after ''No'' answer_text of
              None \<Rightarrow> Inl IndexError
            | Some rest \<Rightarrow> Inr (''No - '' @ take 100 (strip rest)))
      else if str_in ''suitable'' (lower answer_text) \<and>
              \<not> str_in ''not'' (take 30 (lower answer_text))
      then Inr (''Yes - '' @ take 100 answer_text)
      else if str_in ''not suitable'' (lower answer_text) \<or>
              str_in ''unsuitable'' (lower answer_text)
      then Inr (''No - '' @ take 100 answer_text)
      else (case py_ge (get_default repo ''keyword_match_count'' (JInt 0)) 2 of
              Inl e \<Rightarrow> Inl e
            | Inr True \<Rightarrow> Inr ''Yes - Based on keywords and pre-filtering''
            | Inr False \<Rightarrow> Inr ''No - Insufficient evidence in repo content''))"

text \<open>Lines 118 to 137 for one attempt.\<close>

definition gemini_attempt :: "pydict \<Rightarrow> generation \<Rightarrow> error + string" where
  "gemini_attempt repo g =
     (case g of
        Generate_Failed \<Rightarrow> Inl RequestException
      | Generated t \<Rightarrow> gemini_parse repo (strip t))"

text \<open>Lines 115 to 144: every attempt returns or raises.\<close>

fun gemini_retry :: "pydict \<Rightarrow> (nat \<Rightarrow> generation) \<Rightarrow> nat list \<Rightarrow> error + string option" where
  "gemini_retry repo env [] = Inr None"
| "gemini_retry repo env (attempt # rest) =
     (case gemini_attempt repo (env attempt) of
        Inr v \<Rightarrow> Inr (Some v)
      | Inl e \<Rightarrow> if attempt < max_retries - 1 then gemini_retry repo env rest else Inl e)"

text \<open>Lines 150 to 159: the handler of the outer \<open>try\<close>.\<close>

definition gemini_fallback :: "pydict \<Rightarrow> error + string" where
  "gemini_fallback repo =
     (let matches = get_default repo ''keyword_match_count'' (JInt 0)
      in case str_lower (get_default repo ''language'' (JStr [])) of
           Inl e \<Rightarrow> Inl e
         | Inr language \<Rightarrow>
             (case py_ge matches 1 of
                Inl e \<Rightarrow> Inl e
              | Inr ge1 \<Rightarrow>
                  if ge1 \<and> language \<in> set privileged_languages
                  then Inr ''Yes (fallback - embedded systems repo by keywords)''
                  else (case py_ge matches 2 of
                          Inl e \<Rightarrow> Inl e
                        | Inr True \<Rightarrow> Inr ''Yes (fallback - multiple keywords matched)''
                        | Inr False \<Rightarrow> Inr ''Yes (fallback - pre-filtered repo)'')))"

text \<open>Lines 82 to 159.\<close>

definition analyze_repo_with_gemini ::
  "analyzer \<Rightarrow> pydict \<Rightarrow> (nat \<Rightarrow> generation) \<Rightarrow> error + string option" where
  "analyze_repo_with_gemini self repo env =
     (if \<not> gemini_available self then Inr (Some ''N/A (Gemini API not configured)'')
      else case prompt_error repo of
             Some e \<Rightarrow> map_sum id Some (gemini_fallback repo)
           | None \<Rightarrow>
               (case gemini_retry repo env [0..<max_retries] of
                  Inl e \<Rightarrow> map_sum id Some (gemini_fallback repo)
                | Inr v \<Rightarrow> Inr v))"

subsection \<open>Choosing the service (analyze_repo)\<close>

text \<open>Lines 60 to 69.\<close>

definition analyze_repo ::
  "analyzer \<Rightarrow> pydict \<Rightarrow> (nat \<Rightarrow> reply) \<Rightarrow> (nat \<Rightarrow> generation) \<Rightarrow> error + string option" where
  "analyze_repo self repo ollama_env gemini_env =
     (if use_ollama self \<and> ollama_available self
      then analyze_repo_with_ollama self repo ollama_env
      else if gemini_available self
      then analyze_repo_with_gemini self repo gemini_env
      else (let matches = get_default repo ''keyword_match_count'' (JInt 0)
            in case py_ge matches 2 of
                 Inl e \<Rightarrow> Inl e
               | Inr True \<Rightarrow> Inr (Some ''Yes (fallback - multiple keywords matched)'')
               | Inr False \<Rightarrow> Inr (Some ''Yes (fallback - pre-filtered repo)'')))"

subsection \<open>Notions used to state the properties of the classification\<close>

text \<open>The verdict a returned string stands for: it opens with \<open>Yes\<close>, with \<open>No\<close> or with
  \<open>N/A\<close>, and the rest is the reason.\<close>

datatype verdict = Suitable string | Unsuitable string | Unavailable string

definition verdict_of :: "string \<Rightarrow> verdict option" where
  "verdict_of s =
     (if prefix ''Yes'' s then Some (Suitable (drop 3 s))
      else if prefix ''No'' s then Some (Unsuitable (drop 2 s))
      else if prefix ''N/A'' s then Some (Unavailable (drop 3 s))
      else None)"

text \<open>An answer of the local model that is read as negative: either it opens with \<open>no\<close>
  in any capitalisation and holds \<open>No\<close> as written here, after which the explanation
  is cut; or it opens with neither \<open>yes\<close> nor \<open>no\<close>, is not taken as positive, and
  contains \<open>not suitable\<close> or \<open>unsuitable\<close>.\<close>

definition parses_as_no :: "string \<Rightarrow> bool" where
  "parses_as_no answer_text =
     (\<not> prefix ''yes'' (lower answer_text) \<and>
      ((prefix ''no'' (lower answer_text) \<and> str_in ''No'' answer_text) \<or>
       (\<not> prefix ''no'' (lower answer_text) \<and>
        \<not> (str_in ''suitable'' (lower answer_text) \<and>
            \<not> str_in ''not'' (take 30 (lower answer_text))) \<and>
        (str_in ''not suitable'' (lower answer_text) \<or>
         str_in ''unsuitable'' (lower answer_text)))))"

text \<open>The second look turns a negative answer into a positive one.\<close>

definition overrides :: "string \<Rightarrow> int \<Rightarrow> bool" where
  "overrides language n = ((lower language \<in> set privileged_languages \<and> 1 \<le> n) \<or> 2 \<le> n)"

subsection \<open>Sample analyzers and answers\<close>

definition no_backend :: analyzer where
  "no_backend = \<lparr>use_ollama = False, ollama_available = False, gemini_available = False\<rparr>"

definition local_backend :: analyzer where
  "local_backend = \<lparr>use_ollama = True, ollama_available = True, gemini_available = False\<rparr>"

definition always_unavailable :: "nat \<Rightarrow> reply" where
  "always_unavailable attempt = Reply 503 None"

definition never_generates :: "nat \<Rightarrow> generation" where
  "never_generates attempt = Generate_Failed"

definition python_docs :: pydict where
  "python_docs =
     [(''full_name'', JStr ''org/docs''), (''name'', JStr ''docs''), (''language'', JStr ''Python''),
      (''keyword_match_count'', JInt 1), (''matching_keywords'', JList [JStr ''RTOS''])]"

definition says_unsuitable :: "nat \<Rightarrow> reply" where
  "says_unsuitable attempt =
     Reply 200 (Some (JObj [(''response'', JStr ''This repository is unsuitable for training'')]))"

definition says_no_in_lower_case :: "nat \<Rightarrow> reply" where
  "says_no_in_lower_case attempt =
     Reply 200 (Some (JObj [(''response'', JStr ''no - only documentation'')]))"

section \<open>Properties of the keyword filter\<close>

lemma str_in_sublist: "str_in sub s = sublist sub s"
  by (induction s) (simp_all add: sublist_Cons_right)

lemma should_exclude_iff: "should_exclude txt E = (\<exists>k\<in>set E. str_in (lower k) txt)"
  by (induction E) simp_all

lemma count_matches_eq:
  "count_matches n d ts K mc ms =
     (mc + int (length (filter (keyword_hit n d ts) K)), ms @ filter (keyword_hit n d ts) K)"
  by (induction K arbitrary: mc ms) simp_all

lemma filter_loop_Inr:
  "\<forall>repo\<in>set repos. readable repo \<Longrightarrow>
   filter_loop repos K E acc =
     Inr (acc @ map (scored K) (filter (\<lambda>r. \<not> excluded E r \<and> matches_of K r \<noteq> []) repos))"
proof (induction repos arbitrary: acc)
  case Nil
  then show ?case by simp
next
  case (Cons repo repos)
  from Cons.prems obtain n d ts where f: "repo_fields repo = Inr (n, d, ts)"
    by (auto simp: readable_def split: sum.splits)
  from Cons.prems have rest: "\<forall>repo\<in>set repos. readable repo" by simp
  show ?case
    using f Cons.IH [OF rest]
    by (simp add: should_exclude_iff count_matches_eq excluded_def matches_of_def scored_def)
qed

lemma filter_loop_readable:
  "filter_loop repos K E acc = Inr out \<Longrightarrow> \<forall>repo\<in>set repos. readable repo"
proof (induction repos arbitrary: acc)
  case Nil
  then show ?case by simp
next
  case (Cons repo repos)
  from Cons.prems have r: "readable repo"
    by (auto simp: readable_def split: sum.splits)
  from Cons.prems obtain acc' where "filter_loop repos K E acc' = Inr out"
    by (auto split: sum.splits if_splits prod.splits)
  then have "\<forall>repo\<in>set repos. readable repo" by (rule Cons.IH)
  with r show ?case by simp
qed

lemma map_of_with_score:
  "map_of (with_score repo n ms) =
     (map_of repo)(''keyword_match_count'' \<mapsto> JInt n, ''matching_keywords'' \<mapsto> JList (map JStr ms))"
  by (simp add: with_score_def update_conv')

lemma get_default_with_score:
  "k \<noteq> ''keyword_match_count'' \<Longrightarrow> k \<noteq> ''matching_keywords'' \<Longrightarrow>
   get_default (with_score repo n ms) k dflt = get_default repo k dflt"
  by (simp add: get_default_def map_of_with_score)

lemma repo_fields_with_score: "repo_fields (with_score repo n ms) = repo_fields repo"
  unfolding repo_fields_def by (simp add: get_default_with_score cong: sum.case_cong)

lemma keyword_match_count_with_score: "keyword_match_count (with_score repo n ms) = n"
  by (simp add: keyword_match_count_def map_of_with_score)

lemma lower_each_strs: "list_all is_str ts \<Longrightarrow> lower_each ts = Inr (map lower (map str_text ts))"
proof (induction ts)
  case Nil
  then show ?case by simp
next
  case (Cons t ts)
  then show ?case by (cases t) simp_all
qed

lemma lower_Nil: "lower [] = []"
  by (simp add: lower_def)

lemma lower_eq_Nil: "(lower k = []) = (k = [])"
  by (simp add: lower_def)

lemma repo_fields_typed:
  assumes "fields_missing_or_typed repo"
  shows "repo_fields repo =
           Inr (lower (name_text repo), lower (description_text repo), map lower (topic_texts repo))"
proof -
  have n: "str_lower (get_default repo ''name'' (JStr [])) = Inr (lower (name_text repo))"
    using assms
    by (auto simp: fields_missing_or_typed_def get_default_def name_text_def lower_Nil
             split: option.splits json.splits)
  have d: "(if truthy (get_default repo ''description'' JNull)
            then str_lower (get_default repo ''description'' (JStr []))
            else Inr []) = Inr (lower (description_text repo))"
    using assms
    by (auto simp: fields_missing_or_typed_def get_default_def description_text_def lower_Nil
             split: option.splits json.splits)
  have t: "\<exists>ts. py_iter (get_default repo ''topics'' (JList [])) = Inr ts \<and>
                lower_each ts = Inr (map lower (topic_texts repo))"
    using assms
    by (auto simp: fields_missing_or_typed_def get_default_def topic_texts_def lower_each_strs
             split: option.splits json.splits)
  then obtain ts where ts: "py_iter (get_default repo ''topics'' (JList [])) = Inr ts"
      "lower_each ts = Inr (map lower (topic_texts repo))" by blast
  show ?thesis
    unfolding repo_fields_def by (simp only: n d ts sum.case)
qed

lemma readable_fields: "readable repo \<Longrightarrow> \<exists>n d ts. repo_fields repo = Inr (n, d, ts)"
  by (cases "repo_fields repo") (auto simp: readable_def)

lemma readable_typed: "fields_missing_or_typed repo \<Longrightarrow> readable repo"
  by (simp add: readable_def repo_fields_typed)

lemma filter_embedded_Inr:
  assumes "\<forall>repo\<in>set repos. readable repo"
  shows "filter_embedded_systems_repos repos K E =
           Inr (sort_key (\<lambda>x. - keyword_match_count x)
                  (map (scored K) (filter (\<lambda>r. \<not> excluded E r \<and> matches_of K r \<noteq> []) repos)))"
  by (simp add: filter_embedded_systems_repos_def filter_loop_Inr [OF assms])

lemma filter_embedded_readable:
  assumes "filter_embedded_systems_repos repos K E = Inr out"
  shows "\<forall>repo\<in>set repos. readable repo"
proof -
  from assms obtain xs where "filter_loop repos K E [] = Inr xs"
    by (auto simp: filter_embedded_systems_repos_def split: sum.splits)
  then show ?thesis by (rule filter_loop_readable)
qed

text \<open>
  Claim C1. When the filter returns, its output is the stable descending sort of the scored
  copies of exactly those input repositories that are not excluded and have at least one
  hit. Every emitted item carries, under \<open>keyword_match_count\<close>, the number of required
  keywords that hit it (at least one) and, under \<open>matching_keywords\<close>, those keywords
  in the order of the required-keyword list, so that the count is the length of the list.
\<close>

theorem scored_item_invariant:
  assumes "filter_embedded_systems_repos repos K E = Inr out"
  shows "out = sort_key (\<lambda>x. - keyword_match_count x)
                 (map (scored K) (filter (\<lambda>r. \<not> excluded E r \<and> matches_of K r \<noteq> []) repos)) \<and>
         (\<forall>r\<in>set out. \<exists>repo\<in>set repos.
             r = scored K repo \<and>
             map_of r ''keyword_match_count'' = Some (JInt (int (length (matches_of K repo)))) \<and>
             map_of r ''matching_keywords'' = Some (JList (map JStr (matches_of K repo))) \<and>
             1 \<le> length (matches_of K repo) \<and>
             (\<exists>name description topics.
                 repo_fields repo = Inr (name, description, topics) \<and>
                 matches_of K repo = filter (keyword_hit name description topics) K))"
proof -
  have rd: "\<forall>repo\<in>set repos. readable repo"
    using assms by (rule filter_embedded_readable)
  have eq: "out = sort_key (\<lambda>x. - keyword_match_count x)
                 (map (scored K) (filter (\<lambda>r. \<not> excluded E r \<and> matches_of K r \<noteq> []) repos))"
    using assms filter_embedded_Inr [OF rd, of K E] by simp
  have "\<exists>repo\<in>set repos.
             r = scored K repo \<and>
             map_of r ''keyword_match_count'' = Some (JInt (int (length (matches_of K repo)))) \<and>
             map_of r ''matching_keywords'' = Some (JList (map JStr (matches_of K repo))) \<and>
             1 \<le> length (matches_of K repo) \<and>
             (\<exists>name description topics.
                 repo_fields repo = Inr (name, description, topics) \<and>
                 matches_of K repo = filter (keyword_hit name description topics) K)"
    if "r \<in> set out" for r
  proof -
    from that eq obtain repo where repo: "repo \<in> set repos" "r = scored K repo"
        "matches_of K repo \<noteq> []"
      by auto
    from rd repo(1) obtain n d ts where f: "repo_fields repo = Inr (n, d, ts)"
      using readable_fields by blast
    have m: "matches_of K repo = filter (keyword_hit n d ts) K"
      by (simp add: matches_of_def f)
    have l: "1 \<le> length (matches_of K repo)"
      using repo(3) by (cases "matches_of K repo") simp_all
    have k1: "map_of r ''keyword_match_count'' = Some (JInt (int (length (matches_of K repo))))"
      by (simp add: repo(2) scored_def map_of_with_score)
    have k2: "map_of r ''matching_keywords'' = Some (JList (map JStr (matches_of K repo)))"
      by (simp add: repo(2) scored_def map_of_with_score)
    show ?thesis
      using repo(1,2) f m l k1 k2 by blast
  qed
  with eq show ?thesis by blast
qed

text \<open>
  Claim C2. If some exclusion keyword, lower-cased, occurs in the text built at line 124
  from the lower-cased name, description and topics of an input repository (joined by
  single spaces), then neither the repository nor any scored copy of it is in the output,
  whatever the required keywords are.
\<close>

theorem exclusion_dominance:
  assumes out: "filter_embedded_systems_repos repos K E = Inr out"
    and fields: "repo_fields repo = Inr (name, description, topics)"
    and k: "k \<in> set E"
    and hit: "sublist (lower k) (all_text name description topics)"
  shows "repo \<notin> set out \<and> (\<forall>n ms. with_score repo n ms \<notin> set out)"
proof -
  have rd: "\<forall>repo\<in>set repos. readable repo"
    using out by (rule filter_embedded_readable)
  have eq: "set out = scored K ` {r \<in> set repos. \<not> excluded E r \<and> matches_of K r \<noteq> []}"
    using out filter_embedded_Inr [OF rd, of K E] by auto
  have ex: "excluded E repo"
    using fields k hit by (auto simp: excluded_def str_in_sublist)
  have keep: "\<not> excluded E r" if "r \<in> set out" for r
  proof -
    from that eq obtain r0 where "r = scored K r0" "\<not> excluded E r0" by auto
    then show ?thesis
      by (simp add: excluded_def scored_def repo_fields_with_score)
  qed
  have a: "repo \<notin> set out"
    using ex keep by blast
  have b: "with_score repo n ms \<notin> set out" for n ms
  proof
    assume "with_score repo n ms \<in> set out"
    then have "\<not> excluded E (with_score repo n ms)" by (rule keep)
    then show False
      using ex by (simp add: excluded_def repo_fields_with_score)
  qed
  from a b show ?thesis by blast
qed

text \<open>
  Claim C3. For a repository with a name, a description and a list of topic tags, a required
  keyword counts as matched exactly when it is a case-insensitive substring of the name, or
  a case-insensitive substring of the description, or case-insensitively equal to one of the
  topic tags: the filter's answer on that repository is its copy scored with exactly those
  keywords, or nothing when there is none.
\<close>

theorem keyword_match_rule:
  assumes "map_of repo ''name'' = Some (JStr name)"
    and "map_of repo ''description'' = Some (JStr description)"
    and "map_of repo ''topics'' = Some (JList (map JStr topics))"
  shows "filter_embedded_systems_repos [repo] K E =
           Inr (let ms = filter (\<lambda>k. ci_substring k name \<or> ci_substring k description \<or>
                                      (\<exists>t\<in>set topics. ci_equal k t)) K
                in if excluded E repo \<or> ms = [] then []
                   else [with_score repo (int (length ms)) ms])"
proof -
  have ty: "fields_missing_or_typed repo"
    using assms by (simp add: fields_missing_or_typed_def list_all_iff)
  have raw: "name_text repo = name" "description_text repo = description"
      "topic_texts repo = topics"
    using assms by (simp_all add: name_text_def description_text_def topic_texts_def comp_def)
  have f: "repo_fields repo = Inr (lower name, lower description, map lower topics)"
    using repo_fields_typed [OF ty] by (simp add: raw)
  have hit: "keyword_hit (lower name) (lower description) (map lower topics) =
               (\<lambda>k. ci_substring k name \<or> ci_substring k description \<or>
                     (\<exists>t\<in>set topics. ci_equal k t))"
    by (rule ext) (auto simp: keyword_hit_def Let_def ci_substring_def ci_equal_def str_in_sublist)
  have m: "matches_of K repo =
             filter (\<lambda>k. ci_substring k name \<or> ci_substring k description \<or>
                          (\<exists>t\<in>set topics. ci_equal k t)) K"
    by (simp add: matches_of_def f hit)
  have rd: "\<forall>r\<in>set [repo]. readable r"
    using ty by (simp add: readable_typed)
  show ?thesis
    unfolding filter_embedded_Inr [OF rd]
    by (simp add: scored_def m Let_def)
qed

theorem scored_item_invariant_witness:
  "filter_embedded_systems_repos [stm32_hal] stm32_keywords [''course''] = Inr [stm32_hal_scored] \<and>
   (\<exists>repo\<in>set [stm32_hal].
      stm32_hal_scored = scored stm32_keywords repo \<and>
      1 \<le> length (matches_of stm32_keywords repo))"
proof -
  have h: "filter_embedded_systems_repos [stm32_hal] stm32_keywords [''course''] =
             Inr [stm32_hal_scored]"
    by (simp add: filter_embedded_systems_repos_def repo_fields_def get_default_def keyword_hit_def lower_def lower_char_def all_text_def with_score_def stm32_hal_def stm32_hal_scored_def stm32_keywords_def)
  have m: "stm32_hal_scored \<in> set [stm32_hal_scored]"
    by (rule list.set_intros(1))
  from scored_item_invariant [OF h, THEN conjunct2, THEN bspec, OF m]
  obtain repo where "repo \<in> set [stm32_hal]"
    and "stm32_hal_scored = scored stm32_keywords repo"
    and "1 \<le> length (matches_of stm32_keywords repo)"
    by (elim bexE conjE)
  then have "\<exists>repo\<in>set [stm32_hal].
      stm32_hal_scored = scored stm32_keywords repo \<and>
      1 \<le> length (matches_of stm32_keywords repo)"
    by (intro bexI conjI)
  with h show ?thesis by (rule conjI)
qed

theorem exclusion_dominance_witness:
  "filter_embedded_systems_repos [rtos_tutorial, stm32_hal] rtos_keywords [''tutorial''] =
     Inr [stm32_hal_scored1] \<and>
   length (matches_of rtos_keywords rtos_tutorial) = 3 \<and>
   rtos_tutorial \<notin> set [stm32_hal_scored1] \<and>
   (\<forall>n ms. with_score rtos_tutorial n ms \<notin> set [stm32_hal_scored1])"
proof -
  have h: "filter_embedded_systems_repos [rtos_tutorial, stm32_hal] rtos_keywords [''tutorial''] =
             Inr [stm32_hal_scored1]"
    by (simp add: filter_embedded_systems_repos_def repo_fields_def get_default_def keyword_hit_def lower_def lower_char_def all_text_def with_score_def stm32_hal_def rtos_tutorial_def rtos_keywords_def stm32_hal_scored1_def)
  have f: "repo_fields rtos_tutorial = Inr (''rtos-intro'', ''stm32 firmware tutorial'', [''rtos''])"
    by (simp add: filter_embedded_systems_repos_def repo_fields_def get_default_def keyword_hit_def lower_def lower_char_def all_text_def with_score_def rtos_tutorial_def)
  have k: "''tutorial'' \<in> set [''tutorial'']"
    by (rule list.set_intros(1))
  have s: "sublist (lower ''tutorial'') (all_text ''rtos-intro'' ''stm32 firmware tutorial'' [''rtos''])"
    unfolding str_in_sublist [symmetric] by (simp add: filter_embedded_systems_repos_def repo_fields_def get_default_def keyword_hit_def lower_def lower_char_def all_text_def with_score_def)
  have m: "length (matches_of rtos_keywords rtos_tutorial) = 3"
    unfolding matches_of_def f by (simp add: filter_embedded_systems_repos_def repo_fields_def get_default_def keyword_hit_def lower_def lower_char_def all_text_def with_score_def rtos_keywords_def)
  from h m exclusion_dominance [OF h f k s] show ?thesis
    by simp
qed

theorem keyword_match_rule_witness:
  "filter_embedded_systems_repos [board_demo] board_keywords [''course''] = Inr [board_demo_scored]"
proof -
  have ex: "\<not> excluded [''course''] board_demo"
    by (simp add: excluded_def repo_fields_def get_default_def lower_def lower_char_def
          all_text_def board_demo_def)
  have n: "map_of board_demo ''name'' = Some (JStr ''demo'')"
    by (simp add: board_demo_def)
  have d: "map_of board_demo ''description'' = Some (JStr ''Board support'')"
    by (simp add: board_demo_def)
  have t: "map_of board_demo ''topics'' = Some (JList (map JStr [''stm32f4'']))"
    by (simp add: board_demo_def)
  show ?thesis
    unfolding keyword_match_rule [OF n d t] using ex
    by (simp add: ci_substring_def ci_equal_def str_in_sublist [symmetric] lower_def lower_char_def
          with_score_def board_demo_def board_keywords_def board_demo_scored_def)
qed

text \<open>
  Claim C10, amended. On repositories whose name, description and topics are each missing
  or well typed (the description possibly null), the filter returns; a missing or null
  field is read as the empty string or the empty list; and for every non-empty keyword a
  hit comes only from a field that is present. The empty keyword is left out: it is a
  substring of the empty string.
\<close>

theorem missing_fields_total:
  assumes "\<forall>repo\<in>set repos. fields_missing_or_typed repo"
  shows "(\<exists>out. filter_embedded_systems_repos repos K E = Inr out) \<and>
         (\<forall>repo\<in>set repos.
            repo_fields repo =
              Inr (lower (name_text repo), lower (description_text repo),
                   map lower (topic_texts repo)) \<and>
            (map_of repo ''name'' = None \<longrightarrow> name_text repo = []) \<and>
            (map_of repo ''description'' = None \<or> map_of repo ''description'' = Some JNull
               \<longrightarrow> description_text repo = []) \<and>
            (map_of repo ''topics'' = None \<longrightarrow> topic_texts repo = []) \<and>
            (\<forall>k. k \<noteq> [] \<longrightarrow>
               keyword_hit (lower (name_text repo)) (lower (description_text repo))
                   (map lower (topic_texts repo)) k =
                 ((map_of repo ''name'' \<noteq> None \<and> str_in (lower k) (lower (name_text repo))) \<or>
                  (map_of repo ''description'' \<noteq> None \<and> map_of repo ''description'' \<noteq> Some JNull \<and>
                     str_in (lower k) (lower (description_text repo))) \<or>
                  (map_of repo ''topics'' \<noteq> None \<and>
                     lower k \<in> set (map lower (topic_texts repo))))))"
proof -
  have rd: "\<forall>repo\<in>set repos. readable repo"
    using assms by (simp add: readable_typed)
  have total: "\<exists>out. filter_embedded_systems_repos repos K E = Inr out"
    by (simp add: filter_embedded_Inr [OF rd])
  have n: "map_of repo ''name'' = None \<Longrightarrow> name_text repo = []" for repo
    by (simp add: name_text_def)
  have d: "map_of repo ''description'' = None \<or> map_of repo ''description'' = Some JNull
             \<Longrightarrow> description_text repo = []" for repo
    by (auto simp: description_text_def)
  have t: "map_of repo ''topics'' = None \<Longrightarrow> topic_texts repo = []" for repo
    by (simp add: topic_texts_def)
  have e: "k \<noteq> [] \<Longrightarrow> \<not> str_in (lower k) []" for k
    by (simp add: lower_eq_Nil)
  have hit: "keyword_hit (lower (name_text repo)) (lower (description_text repo))
                   (map lower (topic_texts repo)) k =
                 ((map_of repo ''name'' \<noteq> None \<and> str_in (lower k) (lower (name_text repo))) \<or>
                  (map_of repo ''description'' \<noteq> None \<and> map_of repo ''description'' \<noteq> Some JNull \<and>
                     str_in (lower k) (lower (description_text repo))) \<or>
                  (map_of repo ''topics'' \<noteq> None \<and>
                     lower k \<in> set (map lower (topic_texts repo))))"
    if "k \<noteq> []" for repo k
    using n [of repo] d [of repo] t [of repo] e [OF that]
    by (auto simp: keyword_hit_def Let_def lower_Nil)
  show ?thesis
    using total assms n d t hit by (simp add: repo_fields_typed)
qed

theorem missing_fields_total_witness:
  "(\<exists>out. filter_embedded_systems_repos [bare_repo] stm32_keywords [] = Inr out) \<and>
   repo_fields bare_repo = Inr ([], [], [])"
proof -
  have h: "\<forall>repo\<in>set [bare_repo]. fields_missing_or_typed repo"
    by (simp add: fields_missing_or_typed_def bare_repo_def)
  have m: "bare_repo \<in> set [bare_repo]"
    by (rule list.set_intros(1))
  note t = missing_fields_total [OF h, of stm32_keywords "[]"]
  have "repo_fields bare_repo =
              Inr (lower (name_text bare_repo), lower (description_text bare_repo),
                   map lower (topic_texts bare_repo))"
    using t [THEN conjunct2, THEN bspec, OF m] by (rule conjunct1)
  then have "repo_fields bare_repo = Inr ([], [], [])"
    by (simp add: name_text_def description_text_def topic_texts_def bare_repo_def lower_def)
  with t [THEN conjunct1] show ?thesis by (rule conjI)
qed

text \<open>
  A repository without a name is emitted with one match when the empty string is a required
  keyword: the missing name, read as the empty string, contains it.
\<close>

theorem missing_name_empty_keyword_counterexample:
  "map_of bare_repo ''name'' = None \<and>
   filter_embedded_systems_repos [bare_repo] [[]] [] =
     Inr [bare_repo @ [(''keyword_match_count'', JInt 1), (''matching_keywords'', JList [JStr []])]]"
  by (simp add: filter_embedded_systems_repos_def repo_fields_def get_default_def keyword_hit_def lower_def lower_char_def all_text_def with_score_def bare_repo_def)

section \<open>Properties of the removal of duplicates\<close>

lemma hashable_key: "hashable x \<Longrightarrow> \<exists>k. identity_key x = Inr k"
  by (cases "identity_key x") (auto simp: hashable_def)

lemma dedup_loop_fresh:
  assumes "\<forall>x\<in>set xs. hashable x"
  shows "\<exists>u'. dedup_loop u xs = Inr (u @ u') \<and>
              map snd u' = fresh (Inr ` fst ` set u) xs"
  using assms
proof (induction xs arbitrary: u)
  case Nil
  then show ?case by simp
next
  case (Cons x xs)
  from Cons.prems have "hashable x" by simp
  then obtain k where k: "identity_key x = Inr k"
    using hashable_key by blast
  from Cons.prems have rest: "\<forall>x\<in>set xs. hashable x" by simp
  show ?case
  proof (cases "map_of u k = None")
    case True
    then have notin: "Inr k \<notin> Inr ` fst ` set u"
      by (auto simp: map_of_eq_None_iff)
    from Cons.IH [OF rest, of "u @ [(k, x)]"]
    obtain u' where u': "dedup_loop (u @ [(k, x)]) xs = Inr ((u @ [(k, x)]) @ u')"
        "map snd u' = fresh (Inr ` fst ` set (u @ [(k, x)])) xs"
      by blast
    have "dedup_loop u (x # xs) = Inr (u @ ((k, x) # u'))"
      using k True u'(1) by simp
    moreover have "map snd ((k, x) # u') = fresh (Inr ` fst ` set u) (x # xs)"
      using k notin u'(2) by (auto simp: image_Un)
    ultimately show ?thesis by blast
  next
    case False
    then have isin: "Inr k \<in> Inr ` fst ` set u"
      by (auto simp: map_of_eq_None_iff)
    from Cons.IH [OF rest, of u]
    obtain u' where u': "dedup_loop u xs = Inr (u @ u')"
        "map snd u' = fresh (Inr ` fst ` set u) xs"
      by blast
    have "dedup_loop u (x # xs) = Inr (u @ u')"
      using k False u'(1) by auto
    moreover have "map snd u' = fresh (Inr ` fst ` set u) (x # xs)"
      using k isin u'(2) by auto
    ultimately show ?thesis by blast
  qed
qed

lemma unique_repos_list_fresh:
  assumes "\<forall>x\<in>set xs. hashable x"
  shows "unique_repos_list xs = Inr (fresh {} xs)"
proof -
  from dedup_loop_fresh [OF assms, of "[]"]
  obtain u' where "dedup_loop [] xs = Inr u'" "map snd u' = fresh {} xs"
    by auto
  then show ?thesis by (simp add: unique_repos_list_def)
qed

lemma fresh_keys: "identity_key ` set (fresh seen xs) = identity_key ` set xs - seen"
  by (induction xs arbitrary: seen) auto

lemma fresh_subset: "set (fresh seen xs) \<subseteq> set xs"
  by (induction xs arbitrary: seen) auto

lemma fresh_distinct: "distinct (map identity_key (fresh seen xs))"
proof (induction xs arbitrary: seen)
  case Nil
  then show ?case by simp
next
  case (Cons x xs)
  have "identity_key x \<notin> identity_key ` set (fresh (insert (identity_key x) seen) xs)"
    by (simp add: fresh_keys)
  with Cons.IH show ?case by simp
qed

lemma fresh_subseq: "subseq (fresh seen xs) xs"
  by (induction xs arbitrary: seen) auto

lemma fresh_first:
  "r \<in> set (fresh seen xs) \<Longrightarrow> find (\<lambda>x. identity_key x = identity_key r) xs = Some r"
proof (induction xs arbitrary: seen)
  case Nil
  then show ?case by simp
next
  case (Cons x xs)
  show ?case
  proof (cases "identity_key x \<in> seen")
    case True
    with Cons.prems have r: "r \<in> set (fresh seen xs)" by simp
    then have "identity_key r \<in> identity_key ` set (fresh seen xs)" by (rule imageI)
    then have "identity_key r \<notin> seen" by (simp add: fresh_keys)
    with True have "identity_key x \<noteq> identity_key r" by auto
    with Cons.IH [OF r] show ?thesis by simp
  next
    case False
    show ?thesis
    proof (cases "r = x")
      case True
      then show ?thesis by simp
    next
      case ne: False
      with False Cons.prems have r: "r \<in> set (fresh (insert (identity_key x) seen) xs)" by simp
      then have "identity_key r \<in> identity_key ` set (fresh (insert (identity_key x) seen) xs)"
        by (rule imageI)
      then have "identity_key x \<noteq> identity_key r" by (auto simp: fresh_keys)
      with Cons.IH [OF r] show ?thesis by simp
    qed
  qed
qed

lemma fresh_append:
  "fresh seen (xs @ ys) = fresh seen xs @ fresh (seen \<union> identity_key ` set xs) ys"
  by (induction xs arbitrary: seen) (simp_all add: insert_absorb)

lemma fresh_all_seen: "identity_key ` set ys \<subseteq> seen \<Longrightarrow> fresh seen ys = []"
  by (induction ys) auto

lemma fresh_twice: "fresh {} (xs @ xs) = fresh {} xs"
  by (simp add: fresh_append fresh_all_seen)

lemma fresh_id:
  "distinct (map identity_key ys) \<Longrightarrow> identity_key ` set ys \<inter> seen = {} \<Longrightarrow> fresh seen ys = ys"
  by (induction ys arbitrary: seen) auto

lemma fresh_fresh: "fresh {} (fresh {} xs) = fresh {} xs"
  by (rule fresh_id) (simp_all add: fresh_distinct)

text \<open>
  Claim C9. When every \<open>full_name\<close> can be a dictionary key, removing duplicates returns
  a list with pairwise different keys that has every key of the input, keeps the arrival
  order, and holds for each key the first input repository with that key, with its own
  fields. Running it on the input repeated twice, or on its own result, gives the same list.
\<close>

theorem first_occurrence_kept:
  assumes "\<forall>repo\<in>set all_repos. hashable repo"
  shows "\<exists>out. unique_repos_list all_repos = Inr out \<and>
           distinct (map identity_key out) \<and>
           identity_key ` set out = identity_key ` set all_repos \<and>
           subseq out all_repos \<and>
           (\<forall>r\<in>set out. find (\<lambda>x. identity_key x = identity_key r) all_repos = Some r) \<and>
           unique_repos_list (all_repos @ all_repos) = Inr out \<and>
           unique_repos_list out = Inr out"
proof -
  let ?out = "fresh {} all_repos"
  have 1: "unique_repos_list all_repos = Inr ?out"
    using assms by (rule unique_repos_list_fresh)
  have 2: "distinct (map identity_key ?out)" by (rule fresh_distinct)
  have 3: "identity_key ` set ?out = identity_key ` set all_repos"
    by (simp add: fresh_keys)
  have 4: "subseq ?out all_repos" by (rule fresh_subseq)
  have 5: "\<forall>r\<in>set ?out. find (\<lambda>x. identity_key x = identity_key r) all_repos = Some r"
    using fresh_first by blast
  have "\<forall>repo\<in>set (all_repos @ all_repos). hashable repo"
    using assms by simp
  then have 6: "unique_repos_list (all_repos @ all_repos) = Inr ?out"
    by (simp only: unique_repos_list_fresh fresh_twice)
  have "\<forall>repo\<in>set ?out. hashable repo"
    using assms fresh_subset by blast
  then have 7: "unique_repos_list ?out = Inr ?out"
    by (simp only: unique_repos_list_fresh fresh_fresh)
  from 1 2 3 4 5 6 7 show ?thesis by blast
qed

theorem first_occurrence_kept_witness:
  "unique_repos_list ([repo_a, repo_b] @ [repo_a_again]) = Inr [repo_a, repo_b] \<and>
   unique_repos_list (([repo_a, repo_b] @ [repo_a_again]) @ ([repo_a, repo_b] @ [repo_a_again]))
     = Inr [repo_a, repo_b]"
proof -
  have h: "\<forall>repo\<in>set ([repo_a, repo_b] @ [repo_a_again]). hashable repo"
    by (simp add: hashable_def identity_key_def get_default_def repo_a_def repo_b_def
          repo_a_again_def)
  have e: "unique_repos_list ([repo_a, repo_b] @ [repo_a_again]) = Inr [repo_a, repo_b]"
    by (simp add: unique_repos_list_def identity_key_def get_default_def repo_a_def repo_b_def
          repo_a_again_def)
  from first_occurrence_kept [OF h] obtain out where
    o: "unique_repos_list ([repo_a, repo_b] @ [repo_a_again]) = Inr out"
    and t: "unique_repos_list (([repo_a, repo_b] @ [repo_a_again]) @ ([repo_a, repo_b] @ [repo_a_again])) = Inr out"
    by (elim exE conjE)
  from o e have "out = [repo_a, repo_b]" by simp
  with t e show ?thesis by simp
qed

section \<open>Properties of the rate-limit update\<close>

lemma py_int_29: "py_int ''29'' = Inr 29"
  by (simp add: py_int_def int_strip_def is_int_space_def unsigned_value_def digit_of_def max_str_digits_def)

lemma py_int_epoch: "py_int ''1700000060'' = Inr 1700000060"
  by (simp add: py_int_def int_strip_def is_int_space_def unsigned_value_def digit_of_def max_str_digits_def)

lemma py_int_Nil: "py_int [] = Inl ValueError"
  by (simp add: py_int_def int_strip_def)

text \<open>A separator character before the digits is not skipped: the header cannot be read,
  the call takes the exception path and both counters stay as they were.\<close>

lemma py_int_separator: "py_int [CHR 0x1C, CHR ''5''] = Inl ValueError"
  by (simp add: py_int_def int_strip_def is_int_space_def unsigned_value_def digit_of_def)

lemma unreadable_remaining_keeps_counters:
  assumes "x_ratelimit_remaining r = Some s" and "py_int s = Inl e"
  shows "make_request self (Response r) = (self, JNull)"
  using assms by (simp add: make_request_def)

lemma odd_header_keeps_counters:
  "make_request busy_crawler (Response odd_header_response) = (busy_crawler, JNull)"
  by (rule unreadable_remaining_keeps_counters [where s = "[CHR 0x1C, CHR ''5'']"])
     (simp_all add: odd_header_response_def py_int_separator)

text \<open>
  Claim C7, amended. After a response whose rate-limit headers, where present, hold decimal
  integers, the remaining-call counter is the value of its header, and 0 when that header
  is absent; the reset epoch is the value of its header, and is left unchanged when that
  header is absent.
\<close>

theorem after_call_update:
  assumes rem: "\<forall>s. x_ratelimit_remaining r = Some s \<longrightarrow> py_int s = Inr n"
    and rst: "\<forall>s. x_ratelimit_reset r = Some s \<longrightarrow> py_int s = Inr m"
  shows "rate_limit_remaining (fst (make_request self (Response r))) =
           (if x_ratelimit_remaining r = None then 0 else n) \<and>
         rate_limit_reset (fst (make_request self (Response r))) =
           (if x_ratelimit_reset r = None then rate_limit_reset self else m)"
proof -
  have ne: "s \<noteq> []" if "x_ratelimit_reset r = Some s" for s
    using rst that py_int_Nil by auto
  show ?thesis
  proof (cases "x_ratelimit_remaining r")
    case None
    show ?thesis
    proof (cases "x_ratelimit_reset r")
      case n2: None
      with None show ?thesis
        by (simp add: make_request_def Let_def split: option.splits)
    next
      case (Some t)
      with None rst ne [of t] show ?thesis
        by (simp add: make_request_def Let_def split: option.splits)
    qed
  next
    case (Some s)
    with rem have p: "py_int s = Inr n" by simp
    show ?thesis
    proof (cases "x_ratelimit_reset r")
      case None
      with Some p show ?thesis
        by (simp add: make_request_def Let_def split: option.splits)
    next
      case s2: (Some t)
      with Some p rst ne [of t] show ?thesis
        by (simp add: make_request_def Let_def split: option.splits)
    qed
  qed
qed

theorem after_call_update_witness:
  "rate_limit_remaining (fst (make_request busy_crawler (Response full_page))) = 29 \<and>
   rate_limit_reset (fst (make_request busy_crawler (Response full_page))) = 1700000060"
proof -
  have rem: "\<forall>s. x_ratelimit_remaining full_page = Some s \<longrightarrow> py_int s = Inr 29"
    by (simp add: full_page_def py_int_29)
  have rst: "\<forall>s. x_ratelimit_reset full_page = Some s \<longrightarrow> py_int s = Inr 1700000060"
    by (simp add: full_page_def py_int_epoch)
  have a: "x_ratelimit_remaining full_page \<noteq> None" by (simp add: full_page_def)
  have b: "x_ratelimit_reset full_page \<noteq> None" by (simp add: full_page_def)
  from after_call_update [OF rem rst, of busy_crawler] a b show ?thesis by simp
qed

text \<open>
  A response without the remaining-calls header sets the counter from 4999 to 0.
\<close>

theorem absent_remaining_header_counterexample:
  "x_ratelimit_remaining no_header_response = None \<and>
   rate_limit_remaining busy_crawler = 4999 \<and>
   rate_limit_remaining (fst (make_request busy_crawler (Response no_header_response))) = 0"
  by (simp add: make_request_def no_header_response_def busy_crawler_def)

section \<open>Properties of the paginated search\<close>

declare search_loop.simps [simp del]

text \<open>What a request hands back: the decoded body of a response with status 200 and
  readable headers, and \<open>None\<close> in every other case.\<close>

lemma make_request_failed: "make_request self Request_Failed = (self, JNull)"
  by (simp add: make_request_def)

lemma make_request_snd:
  "snd (make_request self (Response r)) =
     (if status_code r = 200 \<and> readable_headers r
      then (case json_body r of None \<Rightarrow> JNull | Some v \<Rightarrow> v)
      else JNull)"
proof (cases "x_ratelimit_remaining r")
  case None
  show ?thesis
  proof (cases "x_ratelimit_reset r")
    case n2: None
    with None show ?thesis
      by (simp add: make_request_def readable_headers_def Let_def split: option.splits)
  next
    case (Some t)
    show ?thesis
    proof (cases "py_int t")
      case (Inl e)
      with None Some show ?thesis
        by (simp add: make_request_def readable_headers_def Let_def split: option.splits)
    next
      case (Inr m)
      with None Some show ?thesis
        by (simp add: make_request_def readable_headers_def Let_def split: option.splits)
    qed
  qed
next
  case (Some s)
  show ?thesis
  proof (cases "py_int s")
    case (Inl e)
    with Some show ?thesis
      by (simp add: make_request_def readable_headers_def)
  next
    case (Inr n)
    show ?thesis
    proof (cases "x_ratelimit_reset r")
      case None
      with Some Inr show ?thesis
        by (simp add: make_request_def readable_headers_def Let_def split: option.splits)
    next
      case s2: (Some t)
      show ?thesis
      proof (cases "py_int t")
        case i2: (Inl e)
        with Some Inr s2 show ?thesis
          by (simp add: make_request_def readable_headers_def Let_def split: option.splits)
      next
        case i3: (Inr m)
        with Some Inr s2 show ?thesis
          by (simp add: make_request_def readable_headers_def Let_def split: option.splits)
      qed
    qed
  qed
qed

lemma make_request_not_ok:
  "\<not> (status_code r = 200 \<and> readable_headers r) \<Longrightarrow>
   snd (make_request self (Response r)) = JNull"
  by (simp only: make_request_snd if_False)

lemma make_request_ok:
  "status_code r = 200 \<and> readable_headers r \<Longrightarrow>
   snd (make_request self (Response r)) = (case json_body r of None \<Rightarrow> JNull | Some v \<Rightarrow> v)"
  by (simp add: make_request_snd)

lemma page_items_not_ok:
  "\<not> (status_code r = 200 \<and> readable_headers r) \<Longrightarrow> page_items (Response r) = []"
  unfolding page_items_def by (simp only: http_result.case if_False)

lemma page_items_ok:
  "status_code r = 200 \<and> readable_headers r \<Longrightarrow>
   page_items (Response r) =
     (case json_body r of
        Some (JObj kvs) \<Rightarrow> (case map_of kvs ''items'' of Some (JList xs) \<Rightarrow> xs | _ \<Rightarrow> [])
      | _ \<Rightarrow> [])"
  by (simp add: page_items_def)

lemma well_formed_page_ok:
  "well_formed_page (Response r) \<Longrightarrow> status_code r = 200 \<and> readable_headers r \<Longrightarrow>
   (case json_body r of
      None \<Rightarrow> True
    | Some JNull \<Rightarrow> True
    | Some (JObj kvs) \<Rightarrow>
        (case map_of kvs ''items'' of None \<Rightarrow> True | Some (JList xs) \<Rightarrow> True | Some v \<Rightarrow> False)
    | Some v \<Rightarrow> False)"
  unfolding well_formed_page_def by (simp only: http_result.case)

lemma process_page_JNull: "process_page JNull acc = Inr (acc, False)"
  by (simp add: process_page_def)

lemma process_page_JObj:
  assumes "case map_of kvs ''items'' of None \<Rightarrow> True | Some (JList xs) \<Rightarrow> True | Some v \<Rightarrow> False"
  shows "process_page (JObj kvs) acc =
           Inr (acc @ (case map_of kvs ''items'' of Some (JList xs) \<Rightarrow> xs | _ \<Rightarrow> []),
                100 \<le> length (case map_of kvs ''items'' of Some (JList xs) \<Rightarrow> xs | _ \<Rightarrow> []))"
proof (cases "map_of kvs ''items''")
  case None
  then show ?thesis
    by (simp add: process_page_def)
next
  case (Some v)
  with assms obtain xs where v: "v = JList xs"
    by (cases v) simp_all
  from Some have "kvs \<noteq> []" by auto
  with Some v show ?thesis
    by (auto simp: process_page_def)
qed

lemma process_page_well_formed:
  assumes "well_formed_page res"
  shows "process_page (snd (make_request self res)) acc =
           Inr (acc @ page_items res, 100 \<le> length (page_items res))"
proof (cases res)
  case Request_Failed
  then show ?thesis
    by (simp add: make_request_failed process_page_JNull page_items_def)
next
  case (Response r)
  show ?thesis
  proof (cases "status_code r = 200 \<and> readable_headers r")
    case False
    show ?thesis
      unfolding Response make_request_not_ok [OF False] page_items_not_ok [OF False]
      by (simp add: process_page_JNull)
  next
    case True
    note wf = well_formed_page_ok [OF assms [unfolded Response] True]
    show ?thesis
    proof (cases "json_body r")
      case None
      show ?thesis
        unfolding Response make_request_ok [OF True] page_items_ok [OF True] None
        by (simp add: process_page_JNull)
    next
      case (Some v)
      show ?thesis
      proof (cases v)
        case JNull
        show ?thesis
          unfolding Response make_request_ok [OF True] page_items_ok [OF True] Some JNull
          by (simp add: process_page_JNull)
      next
        case (JObj kvs)
        with wf Some have "case map_of kvs ''items'' of
                        None \<Rightarrow> True | Some (JList xs) \<Rightarrow> True | Some v \<Rightarrow> False"
          by simp
        from process_page_JObj [OF this, of acc] show ?thesis
          unfolding Response make_request_ok [OF True] page_items_ok [OF True] Some JObj
          by simp
      qed (use wf Some in simp_all)
    qed
  qed
qed

lemma gathered_Nil: "gathered [] = []"
  by (simp add: gathered_def)

lemma gathered_Cons:
  "gathered (xs # ps) = (if 100 \<le> length xs then xs @ gathered ps else xs)"
  by (simp add: gathered_def)

lemma gathered_stop:
  "\<forall>xs\<in>set as. 100 \<le> length xs \<Longrightarrow> length b < 100 \<Longrightarrow>
   gathered (as @ b # rest) = concat as @ b"
  by (induction as) (simp_all add: gathered_Cons)

lemma gathered_all_full: "\<forall>xs\<in>set as. 100 \<le> length xs \<Longrightarrow> gathered as = concat as"
  by (induction as) (simp_all add: gathered_Cons gathered_Nil)

lemma search_loop_pages:
  assumes wf: "\<forall>p. well_formed_page (env p)"
  shows "snd (search_loop self env max_pages page acc) =
           Inr (acc @ gathered (map (\<lambda>p. page_items (env p)) [page..max_pages]))"
proof (induction "nat (max_pages + 1 - page)" arbitrary: self page acc)
  case 0
  then have "\<not> page \<le> max_pages" by simp
  then show ?case
    by (simp add: search_loop.simps [of self env max_pages page acc] gathered_Nil)
next
  case (Suc k)
  then have le: "page \<le> max_pages" by simp
  from Suc have k: "k = nat (max_pages + 1 - (page + 1))" by simp
  obtain self' response where mr: "make_request self (env page) = (self', response)"
    by (cases "make_request self (env page)")
  have pp: "process_page response acc =
              Inr (acc @ page_items (env page), 100 \<le> length (page_items (env page)))"
    using wf process_page_well_formed [of "env page" self acc] mr by simp
  have up: "[page..max_pages] = page # [page + 1..max_pages]"
    using le by (rule upto_rec1)
  show ?case
  proof (cases "100 \<le> length (page_items (env page))")
    case True
    have "search_loop self env max_pages page acc =
            search_loop self' env max_pages (page + 1) (acc @ page_items (env page))"
      using le mr pp True by (simp add: search_loop.simps [of self env max_pages page acc])
    then show ?thesis
      using Suc.hyps(1) [OF k, of self' "acc @ page_items (env page)"] True
      by (simp add: up gathered_Cons)
  next
    case False
    have "search_loop self env max_pages page acc = (self', Inr (acc @ page_items (env page)))"
      using le mr pp False by (simp add: search_loop.simps [of self env max_pages page acc])
    then show ?thesis
      using False by (simp add: up gathered_Cons)
  qed
qed

text \<open>
  Claim C8. When every response with status 200 is a page as the search API sends it,
  \<open>search_repos\<close> returns, without raising, the items of the pages in page order up to
  and including the first page that is not full (fewer than 100 items), and at most
  \<open>max_pages\<close> pages. At the first page whose request fails or whose response has a
  status other than 200, the search stops and returns what the earlier pages gave. When
  all \<open>max_pages\<close> pages are full, it returns all of them.
\<close>

theorem search_repos_pages:
  assumes wf: "\<forall>p. well_formed_page (env p)"
  shows "snd (search_repos self env max_pages) =
           Inr (gathered (map (\<lambda>p. page_items (env p)) [1..max_pages])) \<and>
         (\<forall>n. 1 \<le> n \<and> n \<le> max_pages \<and>
               (\<forall>p. 1 \<le> p \<and> p < n \<longrightarrow> 100 \<le> length (page_items (env p))) \<and>
               length (page_items (env n)) < 100 \<longrightarrow>
               snd (search_repos self env max_pages) =
                 Inr (concat (map (\<lambda>p. page_items (env p)) [1..n]))) \<and>
         (\<forall>n. 1 \<le> n \<and> n \<le> max_pages \<and>
               (\<forall>p. 1 \<le> p \<and> p < n \<longrightarrow> 100 \<le> length (page_items (env p))) \<and>
               (env n = Request_Failed \<or> (\<exists>r. env n = Response r \<and> status_code r \<noteq> 200)) \<longrightarrow>
               snd (search_repos self env max_pages) =
                 Inr (concat (map (\<lambda>p. page_items (env p)) [1..n - 1]))) \<and>
         ((\<forall>p. 1 \<le> p \<and> p \<le> max_pages \<longrightarrow> 100 \<le> length (page_items (env p))) \<longrightarrow>
               snd (search_repos self env max_pages) =
                 Inr (concat (map (\<lambda>p. page_items (env p)) [1..max_pages])))"
proof -
  let ?f = "\<lambda>p. page_items (env p)"
  have a: "snd (search_repos self env max_pages) = Inr (gathered (map ?f [1..max_pages]))"
    using search_loop_pages [OF wf, of self max_pages 1 "[]"] by (simp add: search_repos_def)
  have b: "snd (search_repos self env max_pages) = Inr (concat (map ?f [1..n]))"
    if n: "1 \<le> n" "n \<le> max_pages"
      and full: "\<forall>p. 1 \<le> p \<and> p < n \<longrightarrow> 100 \<le> length (?f p)"
      and short: "length (?f n) < 100" for n
  proof -
    have sp: "[1..max_pages] = [1..n - 1] @ n # [n + 1..max_pages]"
      using n by (rule upto_split3)
    have sn: "[1..n] = [1..n - 1] @ [n]"
      using n(1) by (simp add: upto_rec2)
    have fl: "\<forall>xs\<in>set (map ?f [1..n - 1]). 100 \<le> length xs"
      using full by auto
    show ?thesis
      unfolding a sp sn using gathered_stop [OF fl short] by simp
  qed
  have d: "snd (search_repos self env max_pages) = Inr (concat (map ?f [1..n - 1]))"
    if n: "1 \<le> n" "n \<le> max_pages"
      and full: "\<forall>p. 1 \<le> p \<and> p < n \<longrightarrow> 100 \<le> length (?f p)"
      and failed: "env n = Request_Failed \<or> (\<exists>r. env n = Response r \<and> status_code r \<noteq> 200)"
    for n
  proof -
    have e: "?f n = []"
    proof (cases "env n")
      case Request_Failed
      then show ?thesis by (simp add: page_items_def)
    next
      case (Response r)
      with failed have "\<not> (status_code r = 200 \<and> readable_headers r)" by simp
      then show ?thesis
        unfolding Response by (rule page_items_not_ok)
    qed
    then have short: "length (?f n) < 100" by simp
    have sn: "[1..n] = [1..n - 1] @ [n]"
      using n(1) by (simp add: upto_rec2)
    show ?thesis
      using b [OF n full short] e by (simp add: sn)
  qed
  have c: "snd (search_repos self env max_pages) = Inr (concat (map ?f [1..max_pages]))"
    if "\<forall>p. 1 \<le> p \<and> p \<le> max_pages \<longrightarrow> 100 \<le> length (?f p)"
  proof -
    have "\<forall>xs\<in>set (map ?f [1..max_pages]). 100 \<le> length xs"
      using that by auto
    then show ?thesis
      unfolding a by (simp add: gathered_all_full)
  qed
  from a b c d show ?thesis by blast
qed

lemma full_page_headers: "readable_headers full_page"
proof -
  have r: "py_int ''29'' = Inr 29"
    by (simp add: py_int_def int_strip_def is_int_space_def unsigned_value_def digit_of_def
          max_str_digits_def)
  have e: "py_int ''1700000060'' = Inr 1700000060"
    by (simp add: py_int_def int_strip_def is_int_space_def unsigned_value_def digit_of_def
          max_str_digits_def)
  show ?thesis
    by (simp add: readable_headers_def full_page_def r e)
qed

theorem search_repos_pages_witness:
  "snd (search_repos busy_crawler flaky_env 5) =
     Inr (replicate 100 (JObj [(''full_name'', JStr ''org/repo'')]))"
proof -
  have s1: "status_code full_page = 200"
    by (simp add: full_page_def)
  have b1: "json_body full_page =
              Some (JObj [(''total_count'', JInt 250),
                          (''items'', JList (replicate 100 (JObj [(''full_name'', JStr ''org/repo'')])))])"
    by (simp add: full_page_def)
  have s2: "status_code rate_limited \<noteq> 200"
    by (simp add: rate_limited_def)
  have wf: "\<forall>p. well_formed_page (flaky_env p)"
    by (simp add: well_formed_page_def flaky_env_def s1 s2 b1)
  have p1: "page_items (flaky_env 1) = replicate 100 (JObj [(''full_name'', JStr ''org/repo'')])"
    by (simp add: page_items_def flaky_env_def s1 b1 full_page_headers)
  have full: "\<forall>p. 1 \<le> p \<and> p < 2 \<longrightarrow> 100 \<le> length (page_items (flaky_env p))"
  proof (intro allI impI)
    fix p :: int
    assume "1 \<le> p \<and> p < 2"
    then have "p = 1" by simp
    then show "100 \<le> length (page_items (flaky_env p))" by (simp add: p1)
  qed
  have failed: "flaky_env 2 = Request_Failed \<or>
                (\<exists>r. flaky_env 2 = Response r \<and> status_code r \<noteq> 200)"
    by (simp add: flaky_env_def s2)
  have n: "(1::int) \<le> 2 \<and> (2::int) \<le> 5 \<and>
           (\<forall>p. 1 \<le> p \<and> p < 2 \<longrightarrow> 100 \<le> length (page_items (flaky_env p))) \<and>
           (flaky_env 2 = Request_Failed \<or>
            (\<exists>r. flaky_env 2 = Response r \<and> status_code r \<noteq> 200))"
    using full failed by simp
  have "snd (search_repos busy_crawler flaky_env 5) =
          Inr (concat (map (\<lambda>p. page_items (flaky_env p)) [1..2 - 1]))"
    using search_repos_pages [OF wf, of busy_crawler 5, THEN conjunct2, THEN conjunct2,
        THEN conjunct1, THEN spec, of 2] n by (rule mp)
  then show ?thesis
    by (simp add: p1)
qed

section \<open>Properties of the classification\<close>

declare digits.simps [simp del]

lemma split_after_found:
  "str_in sep s \<Longrightarrow> sep \<noteq> [] \<Longrightarrow> \<exists>rest. split_after sep s = Some rest"
  by (induction s) auto

lemma explanation_after_No:
  assumes "str_in ''No'' answer_text"
  shows "\<exists>explanation. explanation_after ''No'' answer_text = Inr explanation"
proof (cases "str_in (''No'' @ '' -'') answer_text")
  case True
  then obtain rest where "split_after (''No'' @ '' -'') answer_text = Some rest"
    using split_after_found by blast
  with True show ?thesis by (simp add: explanation_after_def)
next
  case False
  from assms obtain rest where "split_after ''No'' answer_text = Some rest"
    using split_after_found by blast
  with False show ?thesis by (simp add: explanation_after_def)
qed

lemma override_no_typed:
  assumes "get_default repo ''language'' (JStr []) = JStr language"
    and "get_default repo ''keyword_match_count'' (JInt 0) = JInt n"
  shows "override_no repo shown =
           Inr (if lower language \<in> set privileged_languages \<and> 1 \<le> n
                then ''Yes - Contains '' @ lower language @ '' code and matches embedded keywords''
                else if 2 \<le> n
                then ''Yes - Matches multiple embedded keywords ('' @ str_int n @ '')''
                else ''No - '' @ take 95 shown)"
  using assms by (simp add: override_no_def Let_def)

lemma ollama_parse_no:
  assumes "parses_as_no answer_text"
  shows "\<exists>shown. ollama_parse repo answer_text = override_no repo shown"
proof (cases "prefix ''no'' (lower answer_text)")
  case True
  with assms have "str_in ''No'' answer_text" and ny: "\<not> prefix ''yes'' (lower answer_text)"
    by (simp_all add: parses_as_no_def)
  then obtain explanation where "explanation_after ''No'' answer_text = Inr explanation"
    using explanation_after_No by blast
  with True ny have "ollama_parse repo answer_text = override_no repo explanation"
    by (simp add: ollama_parse_def)
  then show ?thesis ..
next
  case False
  with assms have "ollama_parse repo answer_text = override_no repo answer_text"
    unfolding parses_as_no_def ollama_parse_def by presburger
  then show ?thesis ..
qed

lemma verdict_Yes: "verdict_of (''Yes'' @ rest) = Some (Suitable rest)"
  by (simp add: verdict_of_def)

lemma verdict_No: "verdict_of (''No'' @ rest) = Some (Unsuitable rest)"
  by (simp add: verdict_of_def)

text \<open>
  Where the answer of the local model is read as negative, and the repository's language
  is a string (or missing) and its match count an integer (or missing), the second look
  decides: the result is positive if the lower-cased language is one of c, c++, assembly
  and the match count is at least 1, or if the match count is at least 2 whatever the
  language; otherwise the negative verdict stands, with the explanation cut at 95
  characters.
\<close>

lemma negative_answer_override:
  assumes no: "parses_as_no answer_text"
    and lang: "get_default repo ''language'' (JStr []) = JStr language"
    and cnt: "get_default repo ''keyword_match_count'' (JInt 0) = JInt n"
  shows "\<exists>r shown.
           ollama_parse repo answer_text = Inr r \<and>
           r = (if lower language \<in> set privileged_languages \<and> 1 \<le> n
                then ''Yes - Contains '' @ lower language @ '' code and matches embedded keywords''
                else if 2 \<le> n
                then ''Yes - Matches multiple embedded keywords ('' @ str_int n @ '')''
                else ''No - '' @ take 95 shown) \<and>
           (if overrides language n
            then \<exists>reason. verdict_of r = Some (Suitable reason)
            else \<exists>reason. verdict_of r = Some (Unsuitable reason))"
proof -
  from ollama_parse_no [OF no] obtain shown where
    p: "ollama_parse repo answer_text = override_no repo shown" by blast
  let ?r = "if lower language \<in> set privileged_languages \<and> 1 \<le> n
            then ''Yes - Contains '' @ lower language @ '' code and matches embedded keywords''
            else if 2 \<le> n
            then ''Yes - Matches multiple embedded keywords ('' @ str_int n @ '')''
            else ''No - '' @ take 95 shown"
  have r: "ollama_parse repo answer_text = Inr ?r"
    unfolding p by (rule override_no_typed [OF lang cnt])
  have v: "if overrides language n
           then \<exists>reason. verdict_of ?r = Some (Suitable reason)
           else \<exists>reason. verdict_of ?r = Some (Unsuitable reason)"
    by (simp add: overrides_def verdict_of_def)
  from r v show ?thesis by blast
qed

lemma negative_answer_override_example:
  "ollama_parse stm32_hal_scored1 ''No - only documentation'' =
     Inr ''Yes - Contains c code and matches embedded keywords''"
proof -
  have no: "parses_as_no ''No - only documentation''"
    by (simp add: parses_as_no_def lower_def lower_char_def)
  have lang: "get_default stm32_hal_scored1 ''language'' (JStr []) = JStr ''C''"
    by (simp add: get_default_def stm32_hal_scored1_def stm32_hal_def)
  have cnt: "get_default stm32_hal_scored1 ''keyword_match_count'' (JInt 0) = JInt 1"
    by (simp add: get_default_def stm32_hal_scored1_def stm32_hal_def)
  from negative_answer_override [OF no lang cnt] obtain r shown where
    "ollama_parse stm32_hal_scored1 ''No - only documentation'' = Inr r"
    and "r = (if lower ''C'' \<in> set privileged_languages \<and> (1::int) \<le> 1
                then ''Yes - Contains '' @ lower ''C'' @ '' code and matches embedded keywords''
                else if (2::int) \<le> 1
                then ''Yes - Matches multiple embedded keywords ('' @ str_int 1 @ '')''
                else ''No - '' @ take 95 shown)"
    by (elim exE conjE)
  then show ?thesis
    by (simp add: privileged_languages_def lower_def lower_char_def)
qed

lemma scored_count:
  "get_default (scored K repo) ''keyword_match_count'' (JInt 0) =
     JInt (int (length (matches_of K repo)))"
  by (simp add: scored_def get_default_def with_score_def update_conv')

text \<open>
  Claim C4. With no service available (the local one not both chosen and available, the
  hosted one not available), classifying a repository whose match count is an integer (or
  missing) returns a positive verdict and does not raise: the justification is
  \<open>multiple keywords matched\<close> when the match count is at least 2 and
  \<open>pre-filtered repo\<close> otherwise.
\<close>

theorem no_backend_fallback:
  assumes "\<not> (use_ollama self \<and> ollama_available self)"
    and "\<not> gemini_available self"
    and "get_default repo ''keyword_match_count'' (JInt 0) = JInt n"
  shows "\<exists>r reason.
           analyze_repo self repo ollama_env gemini_env = Inr (Some r) \<and>
           r = (if 2 \<le> n then ''Yes (fallback - multiple keywords matched)''
                else ''Yes (fallback - pre-filtered repo)'') \<and>
           verdict_of r = Some (Suitable reason)"
proof -
  have "analyze_repo self repo ollama_env gemini_env =
          (case py_ge (JInt n) 2 of
             Inl e \<Rightarrow> Inl e
           | Inr True \<Rightarrow> Inr (Some ''Yes (fallback - multiple keywords matched)'')
           | Inr False \<Rightarrow> Inr (Some ''Yes (fallback - pre-filtered repo)''))"
    unfolding analyze_repo_def Let_def assms(3)
    by (simp only: if_not_P [OF assms(1)] if_not_P [OF assms(2)])
  then show ?thesis
    by (simp add: verdict_of_def)
qed

theorem no_backend_fallback_witness:
  "analyze_repo no_backend stm32_hal_scored always_unavailable never_generates =
     Inr (Some ''Yes (fallback - multiple keywords matched)'')"
proof -
  have a: "\<not> (use_ollama no_backend \<and> ollama_available no_backend)"
    by (simp add: no_backend_def)
  have b: "\<not> gemini_available no_backend"
    by (simp add: no_backend_def)
  have c: "get_default stm32_hal_scored ''keyword_match_count'' (JInt 0) = JInt 2"
    by (simp add: get_default_def stm32_hal_scored_def stm32_hal_def)
  from no_backend_fallback [OF a b c, of always_unavailable never_generates] obtain r where
    "analyze_repo no_backend stm32_hal_scored always_unavailable never_generates = Inr (Some r)"
    and "r = (if (2::int) \<le> 2 then ''Yes (fallback - multiple keywords matched)''
              else ''Yes (fallback - pre-filtered repo)'')"
    by (elim exE conjE)
  then show ?thesis by simp
qed

text \<open>
  The loop over the attempts of the local model ends without a value when every attempt
  meets an error status; the loop of the hosted model has no such exit.
\<close>

lemma attempts_upt: "[0..<max_retries] = [0, 1, 2]"
  by (simp add: max_retries_def upt_rec)

lemma ollama_all_error_status:
  assumes av: "ollama_available self"
    and pr: "prompt_error repo = None"
    and st: "\<forall>attempt<3. \<exists>status body. env attempt = Reply status body \<and> status \<noteq> 200"
  shows "analyze_repo_with_ollama self repo env = Inr None"
proof -
  have "ollama_attempt repo (env attempt) = Inr None" if "attempt < 3" for attempt
    using st that by (auto simp: ollama_attempt_def)
  then have "ollama_retry repo env [0, 1, 2] = Inr None"
    by simp
  with av pr show ?thesis
    by (simp add: analyze_repo_with_ollama_def attempts_upt)
qed

lemma gemini_retry_returns: "gemini_retry repo env [0, 1, 2] \<noteq> Inr None"
  by (simp add: max_retries_def split: sum.splits)

lemma gemini_never_none: "analyze_repo_with_gemini self repo env \<noteq> Inr None"
proof -
  have f: "map_sum id Some (gemini_fallback repo) \<noteq> Inr None"
    by (cases "gemini_fallback repo") simp_all
  have r: "gemini_retry repo env [0..<max_retries] \<noteq> Inr None"
    unfolding attempts_upt by (rule gemini_retry_returns)
  show ?thesis
  proof (cases "prompt_error repo")
    case None
    show ?thesis
    proof (cases "gemini_retry repo env [0..<max_retries]")
      case (Inl e)
      with None f show ?thesis by (simp add: analyze_repo_with_gemini_def)
    next
      case (Inr v)
      with None r show ?thesis by (simp add: analyze_repo_with_gemini_def)
    qed
  next
    case (Some e)
    with f show ?thesis by (simp add: analyze_repo_with_gemini_def)
  qed
qed

text \<open>
  Claim C5 asks that every classification call ends with exactly one verdict. With the
  local model chosen and available, a service that answers each of the three attempts with
  status 503 makes the call end with no value at all: after the last attempt the loop is
  left without a return and without an exception, so neither a verdict nor the handler's
  fallback is reached.
\<close>

theorem ollama_error_status_returns_none:
  "analyze_repo local_backend stm32_hal_scored always_unavailable never_generates = Inr None"
proof -
  have av: "ollama_available local_backend"
    by (simp add: local_backend_def)
  have pr: "prompt_error stm32_hal_scored = None"
    by (simp add: prompt_error_def get_default_def stm32_hal_scored_def stm32_hal_def)
  have st: "\<forall>attempt<3. \<exists>status body.
              always_unavailable attempt = Reply status body \<and> status \<noteq> 200"
    by (simp add: always_unavailable_def)
  have "analyze_repo_with_ollama local_backend stm32_hal_scored always_unavailable = Inr None"
    using av pr st by (rule ollama_all_error_status)
  then show ?thesis
    by (simp add: analyze_repo_def local_backend_def)
qed

text \<open>
  Claim C6 asks that a negative answer of the local model stands unless the language or
  the match count overrides it. For a Python repository with one matching keyword nothing
  overrides, yet two negative answers end as positive verdicts. An answer holding
  \<open>unsuitable\<close> without \<open>not\<close> among its first 30 characters is taken as positive at
  line 254, because \<open>suitable\<close> occurs inside \<open>unsuitable\<close>; the test for
  \<open>unsuitable\<close> at line 256 comes too late. An answer opening with \<open>no\<close> in lower case
  passes the test of line 237, which ignores case, and then fails in the split of line
  239, which does not; after three such attempts the handler answers with its fallback.
\<close>

theorem negative_answers_end_positive:
  "get_default python_docs ''language'' (JStr []) = JStr ''Python'' \<and>
   get_default python_docs ''keyword_match_count'' (JInt 0) = JInt 1 \<and>
   \<not> overrides ''Python'' 1 \<and>
   analyze_repo local_backend python_docs says_unsuitable never_generates =
     Inr (Some ''Yes - This repository is unsuitable for training'') \<and>
   analyze_repo local_backend python_docs says_no_in_lower_case never_generates =
     Inr (Some ''Yes (fallback - matches 1 embedded keywords)'')"
proof -
  have l: "get_default python_docs ''language'' (JStr []) = JStr ''Python''"
    by (simp add: get_default_def python_docs_def)
  have c: "get_default python_docs ''keyword_match_count'' (JInt 0) = JInt 1"
    by (simp add: get_default_def python_docs_def)
  have o: "\<not> overrides ''Python'' 1"
    by (simp add: overrides_def privileged_languages_def lower_def lower_char_def)
  have pr: "prompt_error python_docs = None"
    by (simp add: prompt_error_def get_default_def python_docs_def)
  have u: "ollama_attempt python_docs (says_unsuitable attempt) =
             Inr (Some ''Yes - This repository is unsuitable for training'')" for attempt
    by (simp add: ollama_attempt_def says_unsuitable_def answer_text_of_def get_default_def
          strip_def is_space_def ollama_parse_def lower_def lower_char_def)
  have n: "ollama_attempt python_docs (says_no_in_lower_case attempt) = Inl IndexError"
    for attempt
    by (simp add: ollama_attempt_def says_no_in_lower_case_def answer_text_of_def get_default_def
          strip_def is_space_def ollama_parse_def explanation_after_def lower_def lower_char_def)
  have d: "str_int 1 = ''1''"
    by (simp add: str_int_def digits.simps [of 1])
  have f: "ollama_fallback python_docs = Inr ''Yes (fallback - matches 1 embedded keywords)''"
    unfolding ollama_fallback_def l c
    by (simp add: privileged_languages_def lower_def lower_char_def d)
  have a1: "analyze_repo local_backend python_docs says_unsuitable never_generates =
              Inr (Some ''Yes - This repository is unsuitable for training'')"
    by (simp add: analyze_repo_def analyze_repo_with_ollama_def local_backend_def pr
          attempts_upt u)
  have r: "ollama_retry python_docs says_no_in_lower_case [0, 1, 2] = Inl IndexError"
    by (simp add: n max_retries_def)
  have a2: "analyze_repo local_backend python_docs says_no_in_lower_case never_generates =
              Inr (Some ''Yes (fallback - matches 1 embedded keywords)'')"
    unfolding analyze_repo_def analyze_repo_with_ollama_def attempts_upt r
    by (simp add: local_backend_def pr f)
  from l c o a1 a2 show ?thesis by (intro conjI)
qed


end
